theory Spec2Isabelle
  imports Main "HOL-Library.Sublist" "HOL-Library.Multiset"
begin

section \<open>The syntax check plugin of rsbuild-plugin-check-syntax\<close>

text \<open>
  A shallow embedding of \<^verbatim>\<open>src/CheckSyntaxPlugin.ts\<close>. The class
  \<^verbatim>\<open>CheckSyntaxPlugin\<close> is a record of its fields; its methods take the plugin
  and return the updated one. The functions the class imports from other modules
  (\<^verbatim>\<open>acorn\<close>, \<^verbatim>\<open>node:fs\<close>, \<^verbatim>\<open>node:path\<close>,
  \<^verbatim>\<open>browserslist-to-es-version\<close>, \<^verbatim>\<open>./generateError.js\<close>,
  \<^verbatim>\<open>./generateHtmlScripts.js\<close>, \<^verbatim>\<open>./utils.js\<close>) are parameters of the
  model, collected in one record. Every call to a collaborator that reads a file or
  parses code is written to a log, so that "this file is never read" and "this code is
  never parsed" are statements about the log.
\<close>

subsection \<open>File-type patterns\<close>

text \<open>
  \<^verbatim>\<open>const HTML_REGEX = /\.html$/;\<close> and
  \<^verbatim>\<open>export const JS_REGEX: RegExp = /\.(?:js|mjs|cjs|jsx)$/;\<close>
  Neither pattern has the \<^verbatim>\<open>m\<close> flag, so \<^verbatim>\<open>$\<close> matches at the end of the
  input only: \<^verbatim>\<open>test\<close> holds exactly when the path ends with the extension.
\<close>

definition HTML_REGEX :: "string \<Rightarrow> bool" where
  "HTML_REGEX s = suffix ''.html'' s"

definition JS_REGEX :: "string \<Rightarrow> bool" where
  "JS_REGEX s =
     (suffix ''.js'' s \<or> suffix ''.mjs'' s \<or> suffix ''.cjs'' s \<or> suffix ''.jsx'' s)"

subsection \<open>Data\<close>

text \<open>
  The type variables stand for the types of \<^verbatim>\<open>./types.js\<close> and of the host:
  \<open>'e\<close> is \<^verbatim>\<open>AcornParseError\<close> (the value the parser throws),
  \<open>'d\<close> is \<^verbatim>\<open>ECMASyntaxError\<close> (a finished diagnostic),
  \<open>'v\<close> is \<^verbatim>\<open>EcmaVersion\<close>,
  \<open>'x\<close> is \<^verbatim>\<open>CheckSyntaxExclude\<close>,
  \<open>'r\<close> is the reason a rejected promise carries (an I/O error), and
  \<open>'src\<close> is the host's \<^verbatim>\<open>Source\<close> object of an asset.
\<close>

text \<open>An entry of \<^verbatim>\<open>compilation.getAssets()\<close>; \<open>source = None\<close> is a falsy
  \<^verbatim>\<open>a.source\<close> (a source object, when present, is truthy).\<close>

record 'src asset =
  name :: string
  source :: "'src option"

text \<open>The part of \<^verbatim>\<open>Rspack.Compilation\<close> the hook reads;
  \<open>outputOptions_path = None\<close> is an unset \<^verbatim>\<open>compilation.outputOptions.path\<close>.\<close>

record 'src compilation =
  outputOptions_path :: "string option"
  getAssets :: "'src asset list"

text \<open>The constructor's argument: \<^verbatim>\<open>CheckSyntaxOptions\<close> with \<^verbatim>\<open>targets\<close>
  required and \<^verbatim>\<open>rootPath\<close> added.\<close>

record ('v, 'x) checkSyntaxOptions =
  options_targets :: "string list"
  options_exclude :: "'x option"
  options_excludeOutput :: "'x option"
  options_rootPath :: string
  options_ecmaVersion :: "'v option"

text \<open>The fields of a \<^verbatim>\<open>CheckSyntaxPlugin\<close> instance.\<close>

record ('d, 'v, 'x) checkSyntaxPlugin =
  errors :: "'d list"
  ecmaVersion :: 'v
  targets :: "string list"
  rootPath :: string
  exclude :: "'x option"
  excludeOutput :: "'x option"

text \<open>
  The imported functions.
  \<^item> \<open>parse code v\<close> is \<^verbatim>\<open>parse(code, { ecmaVersion: v })\<close> of acorn:
    \<open>None\<close> when it returns, \<open>Some err\<close> when it throws \<open>err\<close>.
  \<^item> \<open>generateError err code filepath exclude rootPath\<close> is the awaited
    \<^verbatim>\<open>generateError({ err, code, filepath, exclude, rootPath })\<close>: \<open>Inl r\<close> when
    its promise is rejected with \<open>r\<close>, \<open>Inr None\<close> when it is fulfilled with
    \<^verbatim>\<open>null\<close>, \<open>Inr (Some error)\<close> when it is fulfilled with a diagnostic.
  \<^item> \<open>generateHtmlScripts filepath\<close> and \<open>readFile filepath\<close> are the awaited
    \<^verbatim>\<open>generateHtmlScripts(filepath)\<close> and
    \<^verbatim>\<open>fs.promises.readFile(filepath, 'utf-8')\<close>: \<open>Inl r\<close> when the promise is
    rejected with \<open>r\<close>, \<open>Inr\<close> the value otherwise.
  \<^item> \<open>checkIsExclude path exclude\<close>, \<open>browserslistToESVersion targets\<close> and
    \<open>resolve outputPath resourcePath\<close> are the synchronous functions of these names.
\<close>

record ('e, 'd, 'v, 'x, 'r) collaborators =
  parse :: "string \<Rightarrow> 'v \<Rightarrow> 'e option"
  generateError :: "'e \<Rightarrow> string \<Rightarrow> string \<Rightarrow> 'x option \<Rightarrow> string \<Rightarrow> 'r + 'd option"
  generateHtmlScripts :: "string \<Rightarrow> 'r + string list"
  readFile :: "string \<Rightarrow> 'r + string"
  checkIsExclude :: "string \<Rightarrow> 'x option \<Rightarrow> bool"
  browserslistToESVersion :: "string list \<Rightarrow> 'v"
  resolve :: "string \<Rightarrow> string \<Rightarrow> string"

text \<open>The logged calls. \<open>ParseCall filepath code v\<close> is the call
  \<^verbatim>\<open>parse(code, { ecmaVersion: v })\<close> made by \<^verbatim>\<open>tryParse(filepath, code)\<close>.\<close>

datatype ('d, 'v) call =
    GenerateHtmlScriptsCall string
  | ReadFileCall string
  | ParseCall string string 'v
  | PrintErrorsCall "'d list" 'v

text \<open>The file a logged call is about (\<^verbatim>\<open>printErrors\<close> is about none).\<close>

fun call_file :: "('d, 'v) call \<Rightarrow> string option" where
  "call_file (GenerateHtmlScriptsCall f) = Some f"
| "call_file (ReadFileCall f) = Some f"
| "call_file (ParseCall f code v) = Some f"
| "call_file (PrintErrorsCall es v) = None"

text \<open>The plugin instance together with the log of the calls made so far.\<close>

record ('d, 'v, 'x) world =
  plugin :: "('d, 'v, 'x) checkSyntaxPlugin"
  calls :: "('d, 'v) call list"

text \<open>How a promise settles.\<close>

datatype 'r settled = Fulfilled | Rejected 'r

subsection \<open>The constructor\<close>

text \<open>
  \<^verbatim>\<open>this.ecmaVersion = options.ecmaVersion || browserslistToESVersion(this.targets);\<close>
  \<^verbatim>\<open>options.ecmaVersion\<close> has type \<^verbatim>\<open>EcmaVersion | undefined\<close>; an
  \<^verbatim>\<open>EcmaVersion\<close> is an edition number from 3 on, a year, or
  \<^verbatim>\<open>'latest'\<close>, each of them truthy, so \<^verbatim>\<open>||\<close> takes its right operand
  exactly when the option is \<^verbatim>\<open>undefined\<close>. The field \<^verbatim>\<open>errors\<close> starts as
  \<^verbatim>\<open>[]\<close>.
\<close>

definition constructor ::
  "('e, 'd, 'v, 'x, 'r) collaborators \<Rightarrow> ('v, 'x) checkSyntaxOptions \<Rightarrow>
   ('d, 'v, 'x) checkSyntaxPlugin" where
  "constructor env options =
     \<lparr> errors = [],
       ecmaVersion =
         (case options_ecmaVersion options of
            Some v \<Rightarrow> v
          | None \<Rightarrow> browserslistToESVersion env (options_targets options)),
       targets = options_targets options,
       rootPath = options_rootPath options,
       exclude = options_exclude options,
       excludeOutput = options_excludeOutput options \<rparr>"

subsection \<open>tryParse\<close>

text \<open>
  \<^verbatim>\<open>try { parse(code, { ecmaVersion: this.ecmaVersion }); }
  catch (_) { const error = await generateError({ err, code, filepath,
    exclude: this.exclude, rootPath: this.rootPath });
    if (error) { this.errors.push(error); } }\<close>
  What \<^verbatim>\<open>parse\<close> throws is caught. The await of \<^verbatim>\<open>generateError\<close> stands in
  the catch block, outside any \<^verbatim>\<open>try\<close>: when that promise is rejected, so is the
  promise of \<^verbatim>\<open>tryParse\<close>, and nothing is pushed.
\<close>

definition tryParse ::
  "('e, 'd, 'v, 'x, 'r) collaborators \<Rightarrow> ('d, 'v, 'x) world \<Rightarrow> string \<Rightarrow> string \<Rightarrow>
   'r settled \<times> ('d, 'v, 'x) world" where
  "tryParse env w filepath code =
     (let this = plugin w;
          w1 = w\<lparr>calls := calls w @ [ParseCall filepath code (ecmaVersion this)]\<rparr>
      in case parse env code (ecmaVersion this) of
           None \<Rightarrow> (Fulfilled, w1)
         | Some err \<Rightarrow>
             (case generateError env err code filepath (exclude this) (rootPath this) of
                Inl r \<Rightarrow> (Rejected r, w1)
              | Inr error \<Rightarrow>
                  (case error of
                     None \<Rightarrow> (Fulfilled, w1)
                   | Some e \<Rightarrow> (Fulfilled, w1\<lparr>plugin := this\<lparr>errors := errors this @ [e]\<rparr>\<rparr>))))"

subsection \<open>check\<close>

text \<open>
  The HTML branch of \<^verbatim>\<open>check\<close>:
  \<^verbatim>\<open>await Promise.all(htmlScripts.map(async (script) => {
    if (!checkIsExclude(filepath, this.exclude)) { await this.tryParse(filepath, script); } }))\<close>
  Every script's callback is started; the callbacks are taken in the order of the array.
  \<^verbatim>\<open>Promise.all\<close> is rejected with the reason of the first callback that is
  rejected, and the callbacks of the other scripts go on and still push.
\<close>

fun checkScripts ::
  "('e, 'd, 'v, 'x, 'r) collaborators \<Rightarrow> ('d, 'v, 'x) world \<Rightarrow> string \<Rightarrow> string list \<Rightarrow>
   'r settled \<times> ('d, 'v, 'x) world" where
  "checkScripts env w filepath [] = (Fulfilled, w)"
| "checkScripts env w filepath (script # htmlScripts) =
     (case (if \<not> checkIsExclude env filepath (exclude (plugin w))
            then tryParse env w filepath script else (Fulfilled, w)) of
        (Fulfilled, w1) \<Rightarrow> checkScripts env w1 filepath htmlScripts
      | (Rejected r, w1) \<Rightarrow> (Rejected r, snd (checkScripts env w1 filepath htmlScripts)))"

definition checkHtml ::
  "('e, 'd, 'v, 'x, 'r) collaborators \<Rightarrow> ('d, 'v, 'x) world \<Rightarrow> string \<Rightarrow>
   'r settled \<times> ('d, 'v, 'x) world" where
  "checkHtml env w filepath =
     (if HTML_REGEX filepath then
        (let w1 = w\<lparr>calls := calls w @ [GenerateHtmlScriptsCall filepath]\<rparr>
         in case generateHtmlScripts env filepath of
              Inl r \<Rightarrow> (Rejected r, w1)
            | Inr htmlScripts \<Rightarrow> checkScripts env w1 filepath htmlScripts)
      else (Fulfilled, w))"

text \<open>The JavaScript branch: the file is read and its content parsed.\<close>

definition checkJs ::
  "('e, 'd, 'v, 'x, 'r) collaborators \<Rightarrow> ('d, 'v, 'x) world \<Rightarrow> string \<Rightarrow>
   'r settled \<times> ('d, 'v, 'x) world" where
  "checkJs env w filepath =
     (if JS_REGEX filepath then
        (let w1 = w\<lparr>calls := calls w @ [ReadFileCall filepath]\<rparr>
         in case readFile env filepath of
              Inl r \<Rightarrow> (Rejected r, w1)
            | Inr jsScript \<Rightarrow> tryParse env w1 filepath jsScript)
      else (Fulfilled, w))"

text \<open>\<^verbatim>\<open>check(filepath)\<close>: the two branches in sequence; a rejected await ends the
  method.\<close>

definition check ::
  "('e, 'd, 'v, 'x, 'r) collaborators \<Rightarrow> ('d, 'v, 'x) world \<Rightarrow> string \<Rightarrow>
   'r settled \<times> ('d, 'v, 'x) world" where
  "check env w filepath =
     (case checkHtml env w filepath of
        (Rejected r, w1) \<Rightarrow> (Rejected r, w1)
      | (Fulfilled, w1) \<Rightarrow> checkJs env w1 filepath)"

subsection \<open>The afterEmit hook\<close>

text \<open>\<^verbatim>\<open>const outputPath = compilation.outputOptions.path || 'dist';\<close>
  The empty string is falsy too.\<close>

definition outputPath :: "'src compilation \<Rightarrow> string" where
  "outputPath compilation =
     (case outputOptions_path compilation of
        None \<Rightarrow> ''dist''
      | Some p \<Rightarrow> if p = [] then ''dist'' else p)"

text \<open>\<^verbatim>\<open>const resourcePath = a.name.split('?')[0];
  const file = resolve(outputPath, resourcePath);\<close>
  The first piece of the split is the name up to its first question mark.\<close>

definition resourcePath :: "'src asset \<Rightarrow> string" where
  "resourcePath a = takeWhile (\<lambda>c. c \<noteq> CHR ''?'') (name a)"

definition assetFile ::
  "('e, 'd, 'v, 'x, 'r) collaborators \<Rightarrow> 'src compilation \<Rightarrow> 'src asset \<Rightarrow> string" where
  "assetFile env compilation a = resolve env (outputPath compilation) (resourcePath a)"

text \<open>\<^verbatim>\<open>compilation.getAssets().filter((a) => a.source).map((a) => { ...
  if (!checkIsExclude(file, this.excludeOutput)) { return file; } return ''; })\<close>\<close>

definition emittedAssets ::
  "('e, 'd, 'v, 'x, 'r) collaborators \<Rightarrow> ('d, 'v, 'x) checkSyntaxPlugin \<Rightarrow>
   'src compilation \<Rightarrow> string list" where
  "emittedAssets env this compilation =
     map (\<lambda>a. if \<not> checkIsExclude env (assetFile env compilation a) (excludeOutput this)
              then assetFile env compilation a else [])
       (filter (\<lambda>a. source a \<noteq> None) (getAssets compilation))"

text \<open>\<^verbatim>\<open>emittedAssets.filter((assets) => HTML_REGEX.test(assets) || JS_REGEX.test(assets))\<close>\<close>

definition files ::
  "('e, 'd, 'v, 'x, 'r) collaborators \<Rightarrow> ('d, 'v, 'x) checkSyntaxPlugin \<Rightarrow>
   'src compilation \<Rightarrow> string list" where
  "files env this compilation =
     filter (\<lambda>assets. HTML_REGEX assets \<or> JS_REGEX assets) (emittedAssets env this compilation)"

text \<open>
  \<^verbatim>\<open>await Promise.all(files.map(async (file) => { await this.check(file); }))\<close>
  Every file's check is started, whatever becomes of the others; the checks are taken
  in the order of \<^verbatim>\<open>files\<close>. \<^verbatim>\<open>Promise.all\<close> is fulfilled when every check is,
  and rejected with the reason of the first check that is rejected; the checks of the
  other files go on and still append to \<^verbatim>\<open>this.errors\<close>.
\<close>

fun checkAll ::
  "('e, 'd, 'v, 'x, 'r) collaborators \<Rightarrow> ('d, 'v, 'x) world \<Rightarrow> string list \<Rightarrow>
   'r settled \<times> ('d, 'v, 'x) world" where
  "checkAll env w [] = (Fulfilled, w)"
| "checkAll env w (filepath # rest) =
     (case check env w filepath of
        (Fulfilled, w1) \<Rightarrow> checkAll env w1 rest
      | (Rejected r, w1) \<Rightarrow> (Rejected r, snd (checkAll env w1 rest)))"

text \<open>
  The callback given to \<^verbatim>\<open>compiler.hooks.afterEmit.tapPromise\<close>: one run of the
  plugin on a compilation. \<^verbatim>\<open>printErrors(this.errors, this.ecmaVersion)\<close> is reached
  only when the awaited \<^verbatim>\<open>Promise.all\<close> is fulfilled; otherwise the hook's promise
  is rejected with the same reason.
\<close>

definition afterEmit ::
  "('e, 'd, 'v, 'x, 'r) collaborators \<Rightarrow> ('d, 'v, 'x) world \<Rightarrow> 'src compilation \<Rightarrow>
   'r settled \<times> ('d, 'v, 'x) world" where
  "afterEmit env w compilation =
     (case checkAll env w (files env (plugin w) compilation) of
        (Rejected r, w1) \<Rightarrow> (Rejected r, w1)
      | (Fulfilled, w1) \<Rightarrow>
          (Fulfilled,
           w1\<lparr>calls := calls w1 @
                 [PrintErrorsCall (errors (plugin w1)) (ecmaVersion (plugin w1))]\<rparr>))"

text \<open>A plugin instance is constructed once and its hook runs after every build; in
  watch mode, once per rebuild.\<close>

definition new_world ::
  "('e, 'd, 'v, 'x, 'r) collaborators \<Rightarrow> ('v, 'x) checkSyntaxOptions \<Rightarrow> ('d, 'v, 'x) world" where
  "new_world env options = \<lparr> plugin = constructor env options, calls = [] \<rparr>"

fun builds ::
  "('e, 'd, 'v, 'x, 'r) collaborators \<Rightarrow> ('d, 'v, 'x) world \<Rightarrow> 'src compilation list \<Rightarrow>
   ('d, 'v, 'x) world" where
  "builds env w [] = w"
| "builds env w (compilation # rest) = builds env (snd (afterEmit env w compilation)) rest"

section \<open>What each operation appends\<close>

text \<open>
  Every operation of the plugin only appends: diagnostics to \<^verbatim>\<open>this.errors\<close>, calls
  to the log. The functions of this section say what is appended, as functions of the
  plugin's configuration; the lemmas \<open>tryParse_appends\<close> to \<open>afterEmit_appends\<close> prove that
  the operations defined above append exactly that.
\<close>

text \<open>The world after a call that appends \<open>ds\<close> to \<^verbatim>\<open>this.errors\<close> and logs \<open>cs\<close>.\<close>

definition appending ::
  "('d, 'v, 'x) world \<Rightarrow> 'd list \<Rightarrow> ('d, 'v) call list \<Rightarrow> ('d, 'v, 'x) world" where
  "appending w ds cs =
     w\<lparr>plugin := (plugin w)\<lparr>errors := errors (plugin w) @ ds\<rparr>, calls := calls w @ cs\<rparr>"

text \<open>
  The promises of \<^verbatim>\<open>generateError\<close> that \<^verbatim>\<open>tryParse(filepath, code)\<close> awaits:
  none when the code parses, one when the parser throws. What a settled one pushes, and
  the first rejection among a list of them.
\<close>

definition build ::
  "('e, 'd, 'v, 'x, 'r) collaborators \<Rightarrow> ('d, 'v, 'x) checkSyntaxPlugin \<Rightarrow> string \<Rightarrow> string \<Rightarrow>
   ('r + 'd option) list" where
  "build env this filepath code =
     (case parse env code (ecmaVersion this) of
        None \<Rightarrow> []
      | Some err \<Rightarrow> [generateError env err code filepath (exclude this) (rootPath this)])"

fun pushed :: "'r + 'd option \<Rightarrow> 'd list" where
  "pushed (Inl r) = []"
| "pushed (Inr None) = []"
| "pushed (Inr (Some error)) = [error]"

fun firstRejected :: "('r + 'a) list \<Rightarrow> 'r settled" where
  "firstRejected [] = Fulfilled"
| "firstRejected (Inl r # rest) = Rejected r"
| "firstRejected (Inr a # rest) = firstRejected rest"

definition awaited ::
  "('e, 'd, 'v, 'x, 'r) collaborators \<Rightarrow> ('d, 'v, 'x) checkSyntaxPlugin \<Rightarrow> string \<Rightarrow>
   string list \<Rightarrow> ('r + 'd option) list" where
  "awaited env this filepath codes = concat (map (build env this filepath) codes)"

text \<open>The scripts of an HTML document that are parsed.\<close>

definition parsedScripts ::
  "('e, 'd, 'v, 'x, 'r) collaborators \<Rightarrow> ('d, 'v, 'x) checkSyntaxPlugin \<Rightarrow> string \<Rightarrow>
   string list \<Rightarrow> string list" where
  "parsedScripts env this filepath htmlScripts =
     (if checkIsExclude env filepath (exclude this) then [] else htmlScripts)"

text \<open>How the first await of each branch of \<^verbatim>\<open>check\<close> settles, which codes the
  branch parses, and how the branch settles.\<close>

definition htmlRead :: "('e, 'd, 'v, 'x, 'r) collaborators \<Rightarrow> string \<Rightarrow> 'r settled" where
  "htmlRead env filepath =
     (if HTML_REGEX filepath then
        (case generateHtmlScripts env filepath of Inl r \<Rightarrow> Rejected r | Inr htmlScripts \<Rightarrow> Fulfilled)
      else Fulfilled)"

definition htmlParsed ::
  "('e, 'd, 'v, 'x, 'r) collaborators \<Rightarrow> ('d, 'v, 'x) checkSyntaxPlugin \<Rightarrow> string \<Rightarrow> string list" where
  "htmlParsed env this filepath =
     (if HTML_REGEX filepath then
        (case generateHtmlScripts env filepath of
           Inl r \<Rightarrow> []
         | Inr htmlScripts \<Rightarrow> parsedScripts env this filepath htmlScripts)
      else [])"

definition htmlSettled ::
  "('e, 'd, 'v, 'x, 'r) collaborators \<Rightarrow> ('d, 'v, 'x) checkSyntaxPlugin \<Rightarrow> string \<Rightarrow> 'r settled" where
  "htmlSettled env this filepath =
     (case htmlRead env filepath of
        Rejected r \<Rightarrow> Rejected r
      | Fulfilled \<Rightarrow> firstRejected (awaited env this filepath (htmlParsed env this filepath)))"

definition jsRead :: "('e, 'd, 'v, 'x, 'r) collaborators \<Rightarrow> string \<Rightarrow> 'r settled" where
  "jsRead env filepath =
     (if JS_REGEX filepath then
        (case readFile env filepath of Inl r \<Rightarrow> Rejected r | Inr jsScript \<Rightarrow> Fulfilled)
      else Fulfilled)"

definition jsParsed :: "('e, 'd, 'v, 'x, 'r) collaborators \<Rightarrow> string \<Rightarrow> string list" where
  "jsParsed env filepath =
     (if JS_REGEX filepath then
        (case readFile env filepath of Inl r \<Rightarrow> [] | Inr jsScript \<Rightarrow> [jsScript])
      else [])"

definition jsSettled ::
  "('e, 'd, 'v, 'x, 'r) collaborators \<Rightarrow> ('d, 'v, 'x) checkSyntaxPlugin \<Rightarrow> string \<Rightarrow> 'r settled" where
  "jsSettled env this filepath =
     (case jsRead env filepath of
        Rejected r \<Rightarrow> Rejected r
      | Fulfilled \<Rightarrow> firstRejected (awaited env this filepath (jsParsed env filepath)))"

text \<open>What \<^verbatim>\<open>check(filepath)\<close> does, as functions of the file: how its promise
  settles, the codes it parses, the promises of \<^verbatim>\<open>generateError\<close> it awaits, the
  diagnostics it pushes and the calls it logs.\<close>

definition fileSettled ::
  "('e, 'd, 'v, 'x, 'r) collaborators \<Rightarrow> ('d, 'v, 'x) checkSyntaxPlugin \<Rightarrow> string \<Rightarrow> 'r settled" where
  "fileSettled env this filepath =
     (case htmlSettled env this filepath of
        Rejected r \<Rightarrow> Rejected r
      | Fulfilled \<Rightarrow> jsSettled env this filepath)"

definition fileParsed ::
  "('e, 'd, 'v, 'x, 'r) collaborators \<Rightarrow> ('d, 'v, 'x) checkSyntaxPlugin \<Rightarrow> string \<Rightarrow> string list" where
  "fileParsed env this filepath =
     htmlParsed env this filepath @
     (case htmlSettled env this filepath of Rejected r \<Rightarrow> [] | Fulfilled \<Rightarrow> jsParsed env filepath)"

definition fileBuilds ::
  "('e, 'd, 'v, 'x, 'r) collaborators \<Rightarrow> ('d, 'v, 'x) checkSyntaxPlugin \<Rightarrow> string \<Rightarrow>
   ('r + 'd option) list" where
  "fileBuilds env this filepath = awaited env this filepath (fileParsed env this filepath)"

definition fileDiags ::
  "('e, 'd, 'v, 'x, 'r) collaborators \<Rightarrow> ('d, 'v, 'x) checkSyntaxPlugin \<Rightarrow> string \<Rightarrow> 'd list" where
  "fileDiags env this filepath = concat (map pushed (fileBuilds env this filepath))"

definition fileCalls ::
  "('e, 'd, 'v, 'x, 'r) collaborators \<Rightarrow> ('d, 'v, 'x) checkSyntaxPlugin \<Rightarrow> string \<Rightarrow>
   ('d, 'v) call list" where
  "fileCalls env this filepath =
     (if HTML_REGEX filepath then [GenerateHtmlScriptsCall filepath] else []) @
     map (\<lambda>code. ParseCall filepath code (ecmaVersion this)) (htmlParsed env this filepath) @
     (case htmlSettled env this filepath of
        Rejected r \<Rightarrow> []
      | Fulfilled \<Rightarrow>
          (if JS_REGEX filepath then [ReadFileCall filepath] else []) @
          map (\<lambda>code. ParseCall filepath code (ecmaVersion this)) (jsParsed env filepath))"

text \<open>How the first await of a check settles, whichever branch it is in.\<close>

definition fileRead :: "('e, 'd, 'v, 'x, 'r) collaborators \<Rightarrow> string \<Rightarrow> 'r settled" where
  "fileRead env filepath =
     (case htmlRead env filepath of
        Rejected r \<Rightarrow> Rejected r
      | Fulfilled \<Rightarrow> jsRead env filepath)"

text \<open>How \<^verbatim>\<open>Promise.all\<close> over the checks of \<open>files\<close> settles, and what one run
  pushes and logs.\<close>

fun allSettled ::
  "('e, 'd, 'v, 'x, 'r) collaborators \<Rightarrow> ('d, 'v, 'x) checkSyntaxPlugin \<Rightarrow> string list \<Rightarrow>
   'r settled" where
  "allSettled env this [] = Fulfilled"
| "allSettled env this (filepath # rest) =
     (case fileSettled env this filepath of
        Fulfilled \<Rightarrow> allSettled env this rest
      | Rejected r \<Rightarrow> Rejected r)"

definition runDiags ::
  "('e, 'd, 'v, 'x, 'r) collaborators \<Rightarrow> ('d, 'v, 'x) checkSyntaxPlugin \<Rightarrow> 'src compilation \<Rightarrow>
   'd list" where
  "runDiags env this compilation =
     concat (map (fileDiags env this) (files env this compilation))"

definition runCalls ::
  "('e, 'd, 'v, 'x, 'r) collaborators \<Rightarrow> ('d, 'v, 'x) checkSyntaxPlugin \<Rightarrow> 'src compilation \<Rightarrow>
   ('d, 'v) call list" where
  "runCalls env this compilation =
     concat (map (fileCalls env this) (files env this compilation)) @
     (case allSettled env this (files env this compilation) of
        Fulfilled \<Rightarrow> [PrintErrorsCall (errors this @ runDiags env this compilation) (ecmaVersion this)]
      | Rejected r \<Rightarrow> [])"

text \<open>The grammar version a logged call carries.\<close>

fun call_version :: "('d, 'v) call \<Rightarrow> 'v option" where
  "call_version (GenerateHtmlScriptsCall f) = None"
| "call_version (ReadFileCall f) = None"
| "call_version (ParseCall f code v) = Some v"
| "call_version (PrintErrorsCall es v) = Some v"

section \<open>A run with its checks interleaved\<close>

text \<open>
  \<^verbatim>\<open>afterEmit\<close> above takes the checks one after the other. In the program they are
  promises: the hook starts the check of every file and awaits \<^verbatim>\<open>Promise.all\<close> of
  them. A check runs alone between two of its awaits, so a run is a sequence of atomic
  actions, in an order the event loop chooses:
  \<^item> \<open>Settle i\<close>: the first await of the check of the \<open>i\<close>-th file
    (\<^verbatim>\<open>generateHtmlScripts\<close> or \<^verbatim>\<open>readFile\<close>) settles. Rejected, it rejects the
    check, and with it \<^verbatim>\<open>Promise.all\<close> and the hook unless they are settled already.
    Fulfilled, the codes of the file are parsed (\<^verbatim>\<open>parse\<close> is synchronous) and for
    each that fails a promise of \<^verbatim>\<open>generateError\<close> is awaited.
  \<^item> \<open>Build i j\<close>: the \<open>j\<close>-th promise of \<^verbatim>\<open>generateError\<close> the check of the
    \<open>i\<close>-th file still waits for settles. Fulfilled with a diagnostic, the
    diagnostic is pushed to \<^verbatim>\<open>this.errors\<close>; fulfilled with \<^verbatim>\<open>null\<close>, nothing is
    pushed; rejected, the check is rejected, and with it \<^verbatim>\<open>Promise.all\<close> and the
    hook unless they are settled already. The other promises of a rejected check are
    still awaited and still push.
  \<^item> \<open>Finish i\<close>: the check of the \<open>i\<close>-th file, not rejected and with no promise
    left to wait for, is fulfilled.
  \<^item> \<open>Print\<close>: every check is fulfilled, the await of \<^verbatim>\<open>Promise.all\<close> returns and
    \<^verbatim>\<open>printErrors(this.errors, this.ecmaVersion)\<close> is called.

  An action that is not enabled leaves the run as it is. A schedule is a list of
  actions, and \<open>interleaved\<close> runs it from the state in which the check of every
  file has been started.
\<close>

text \<open>A check: not yet past its first await; running, with how it has settled so far
  and the promises it still waits for; or fulfilled.\<close>

datatype ('d, 'r) task = Pending | Running "'r settled" "('r + 'd option) list" | Done

datatype ('d, 'v, 'r) hook = Awaiting | Printed "'d list" 'v | HookRejected 'r

record ('d, 'v, 'r) run =
  tasks :: "('d, 'r) task list"
  this_errors :: "'d list"
  hook :: "('d, 'v, 'r) hook"

datatype action = Settle nat | Build nat nat | Finish nat | Print

text \<open>A rejection settles a promise that is not settled yet, and no other.\<close>

fun rejecting :: "'r \<Rightarrow> ('d, 'v, 'r) hook \<Rightarrow> ('d, 'v, 'r) hook" where
  "rejecting r Awaiting = HookRejected r"
| "rejecting r (Printed es v) = Printed es v"
| "rejecting r (HookRejected r') = HookRejected r'"

fun settle_with :: "'r settled \<Rightarrow> 'r + 'a \<Rightarrow> 'r settled" where
  "settle_with (Rejected r') b = Rejected r'"
| "settle_with Fulfilled (Inl r) = Rejected r"
| "settle_with Fulfilled (Inr a) = Fulfilled"

fun hook_after :: "'r + 'a \<Rightarrow> ('d, 'v, 'r) hook \<Rightarrow> ('d, 'v, 'r) hook" where
  "hook_after (Inl r) h = rejecting r h"
| "hook_after (Inr a) h = h"

definition dispatch ::
  "('d, 'v, 'x) checkSyntaxPlugin \<Rightarrow> string list \<Rightarrow> ('d, 'v, 'r) run" where
  "dispatch this fs =
     \<lparr> tasks = map (\<lambda>filepath. Pending) fs, this_errors = errors this, hook = Awaiting \<rparr>"

fun act ::
  "('e, 'd, 'v, 'x, 'r) collaborators \<Rightarrow> ('d, 'v, 'x) checkSyntaxPlugin \<Rightarrow> string list \<Rightarrow>
   action \<Rightarrow> ('d, 'v, 'r) run \<Rightarrow> ('d, 'v, 'r) run" where
  "act env this fs (Settle i) \<rho> =
     (if i < length fs \<and> i < length (tasks \<rho>) \<and> tasks \<rho> ! i = Pending then
        (case fileRead env (fs ! i) of
           Fulfilled \<Rightarrow>
             \<rho>\<lparr>tasks := (tasks \<rho>)[i := Running Fulfilled (fileBuilds env this (fs ! i))]\<rparr>
         | Rejected r \<Rightarrow>
             \<rho>\<lparr>tasks := (tasks \<rho>)[i := Running (Rejected r) []],
               hook := rejecting r (hook \<rho>)\<rparr>)
      else \<rho>)"
| "act env this fs (Build i j) \<rho> =
     (if i < length (tasks \<rho>) then
        (case tasks \<rho> ! i of
           Running s ps \<Rightarrow>
             if j < length ps then
               \<rho>\<lparr>this_errors := this_errors \<rho> @ pushed (ps ! j),
                 tasks := (tasks \<rho>)[i := Running (settle_with s (ps ! j))
                                              (take j ps @ drop (Suc j) ps)],
                 hook := hook_after (ps ! j) (hook \<rho>)\<rparr>
             else \<rho>
         | _ \<Rightarrow> \<rho>)
      else \<rho>)"
| "act env this fs (Finish i) \<rho> =
     (if i < length (tasks \<rho>) \<and> tasks \<rho> ! i = Running Fulfilled [] then
        \<rho>\<lparr>tasks := (tasks \<rho>)[i := Done]\<rparr>
      else \<rho>)"
| "act env this fs Print \<rho> =
     (if hook \<rho> = Awaiting \<and> list_all (\<lambda>t. t = Done) (tasks \<rho>) then
        \<rho>\<lparr>hook := Printed (this_errors \<rho>) (ecmaVersion this)\<rparr>
      else \<rho>)"

definition interleaved ::
  "('e, 'd, 'v, 'x, 'r) collaborators \<Rightarrow> ('d, 'v, 'x) checkSyntaxPlugin \<Rightarrow> string list \<Rightarrow>
   action list \<Rightarrow> ('d, 'v, 'r) run" where
  "interleaved env this fs schedule = fold (act env this fs) schedule (dispatch this fs)"

text \<open>The schedule that takes the files in order, each check to its end, as
  \<^verbatim>\<open>afterEmit\<close> does.\<close>

definition file_actions ::
  "('e, 'd, 'v, 'x, 'r) collaborators \<Rightarrow> ('d, 'v, 'x) checkSyntaxPlugin \<Rightarrow> string list \<Rightarrow>
   nat \<Rightarrow> action list" where
  "file_actions env this fs i =
     Settle i # replicate (length (fileBuilds env this (fs ! i))) (Build i 0) @ [Finish i]"

definition in_order ::
  "('e, 'd, 'v, 'x, 'r) collaborators \<Rightarrow> ('d, 'v, 'x) checkSyntaxPlugin \<Rightarrow> string list \<Rightarrow>
   action list" where
  "in_order env this fs = concat (map (file_actions env this fs) [0..<length fs]) @ [Print]"

text \<open>
  The diagnostics a check has still to push, and those of all checks together; the
  invariant of a run: what is in \<^verbatim>\<open>this.errors\<close> and what is still to be pushed
  make up what was there at the start and the diagnostics of all files; a check that
  is done was fulfilled, and so will a running check be that is not rejected and waits
  for no promise that will be; and once \<^verbatim>\<open>printErrors\<close> has been called, every check
  is done and the list printed is \<^verbatim>\<open>this.errors\<close>.
\<close>

fun left ::
  "('e, 'd, 'v, 'x, 'r) collaborators \<Rightarrow> ('d, 'v, 'x) checkSyntaxPlugin \<Rightarrow> string \<Rightarrow>
   ('d, 'r) task \<Rightarrow> 'd multiset" where
  "left env this filepath Pending = mset (fileDiags env this filepath)"
| "left env this filepath (Running s ps) = mset (concat (map pushed ps))"
| "left env this filepath Done = {#}"

fun all_left ::
  "('e, 'd, 'v, 'x, 'r) collaborators \<Rightarrow> ('d, 'v, 'x) checkSyntaxPlugin \<Rightarrow> string list \<Rightarrow>
   ('d, 'r) task list \<Rightarrow> 'd multiset" where
  "all_left env this (filepath # fs) (t # ts) = left env this filepath t + all_left env this fs ts"
| "all_left env this fs ts = {#}"

definition run_inv ::
  "('e, 'd, 'v, 'x, 'r) collaborators \<Rightarrow> ('d, 'v, 'x) checkSyntaxPlugin \<Rightarrow> string list \<Rightarrow>
   ('d, 'v, 'r) run \<Rightarrow> bool" where
  "run_inv env this fs \<rho> \<longleftrightarrow>
     length (tasks \<rho>) = length fs \<and>
     mset (this_errors \<rho>) + all_left env this fs (tasks \<rho>) =
       mset (errors this) + mset (concat (map (fileDiags env this) fs)) \<and>
     (\<forall>i<length fs.
        tasks \<rho> ! i = Done \<or>
        (\<exists>ps. tasks \<rho> ! i = Running Fulfilled ps \<and> firstRejected ps = Fulfilled) \<longrightarrow>
        fileSettled env this (fs ! i) = Fulfilled) \<and>
     (\<forall>es v. hook \<rho> = Printed es v \<longrightarrow>
        list_all (\<lambda>t. t = Done) (tasks \<rho>) \<and> es = this_errors \<rho> \<and> v = ecmaVersion this)"

section \<open>Sample inputs\<close>

text \<open>
  A small environment on which the model is evaluated: the parser rejects the code
  \<^verbatim>\<open>a?.b\<close> below edition 2020, the output directory \<^verbatim>\<open>/out\<close> holds
  \<^verbatim>\<open>index.html\<close>, \<^verbatim>\<open>a.js\<close>, \<^verbatim>\<open>b.js\<close> and \<^verbatim>\<open>c.js\<close>, an exclusion rule
  is a list of paths, and a diagnostic is the pair of the file and the parser's message.
  For \<^verbatim>\<open>c.js\<close> the promise of \<^verbatim>\<open>generateError\<close> is rejected.
\<close>

definition sample_env ::
  "(string, string \<times> string, nat, string list, string) collaborators" where
  "sample_env =
     \<lparr> parse = (\<lambda>code v. if code = ''a?.b'' \<and> v < 2020 then Some ''Unexpected token'' else None),
       generateError = (\<lambda>err code filepath excl root.
         if filepath = ''/out/c.js'' then Inl ''EIO''
         else if (case excl of None \<Rightarrow> False | Some ps \<Rightarrow> filepath \<in> set ps) then Inr None
         else Inr (Some (filepath, err))),
       generateHtmlScripts = (\<lambda>f. if f = ''/out/index.html'' then Inr [''a?.b'', ''ok'']
         else Inl ''ENOENT''),
       readFile = (\<lambda>f. if f = ''/out/a.js'' \<or> f = ''/out/c.js'' then Inr ''a?.b''
         else if f = ''/out/b.js'' then Inr ''ok'' else Inl ''ENOENT''),
       checkIsExclude = (\<lambda>path excl. case excl of None \<Rightarrow> False | Some ps \<Rightarrow> path \<in> set ps),
       browserslistToESVersion = (\<lambda>ts. 2015),
       resolve = (\<lambda>out rel. out @ ''/'' @ rel) \<rparr>"


definition sample_options :: "(nat, string list) checkSyntaxOptions" where
  "sample_options =
     \<lparr> options_targets = [''ie 11''], options_exclude = None, options_excludeOutput = None,
       options_rootPath = ''/'', options_ecmaVersion = None \<rparr>"

definition build_a :: "unit compilation" where
  "build_a = \<lparr> outputOptions_path = Some ''/out'',
      getAssets = [\<lparr> name = ''a.js?v=1'', source = Some () \<rparr>] \<rparr>"

definition build_b :: "unit compilation" where
  "build_b = \<lparr> outputOptions_path = Some ''/out'',
      getAssets = [\<lparr> name = ''b.js'', source = Some () \<rparr>] \<rparr>"


definition build_ab :: "unit compilation" where
  "build_ab = \<lparr> outputOptions_path = Some ''/out'',
      getAssets = [\<lparr> name = ''missing.js'', source = Some () \<rparr>,
                   \<lparr> name = ''a.js'', source = Some () \<rparr>] \<rparr>"

definition build_html :: "unit compilation" where
  "build_html = \<lparr> outputOptions_path = Some ''/out'',
      getAssets = [\<lparr> name = ''index.html'', source = Some () \<rparr>,
                   \<lparr> name = ''a.js?v=1'', source = Some () \<rparr>] \<rparr>"

definition build_sourceless :: "unit compilation" where
  "build_sourceless = \<lparr> outputOptions_path = Some ''/out'',
      getAssets = [\<lparr> name = ''a.js'', source = None \<rparr>,
                   \<lparr> name = ''b.js'', source = Some () \<rparr>] \<rparr>"

definition dist_build :: "unit compilation" where
  "dist_build = \<lparr> outputOptions_path = None,
      getAssets = [\<lparr> name = ''a.js?v=1'', source = Some () \<rparr>] \<rparr>"

definition exclude_options :: "(nat, string list) checkSyntaxOptions" where
  "exclude_options = sample_options\<lparr>options_exclude := Some [''/out/a.js'', ''/out/index.html'']\<rparr>"

definition excludeOutput_options :: "(nat, string list) checkSyntaxOptions" where
  "excludeOutput_options = sample_options\<lparr>options_excludeOutput := Some [''/out/a.js'']\<rparr>"

definition sample_schedule :: "action list" where
  "sample_schedule =
     [Print, Settle 1, Settle 0, Build 1 0, Print, Build 0 0, Finish 1, Finish 0, Print]"

section \<open>Properties\<close>

subsection \<open>The operations append\<close>

lemma appending_Nil [simp]: "appending w [] [] = w"
  by (simp add: appending_def)

lemma appending_appending [simp]:
  "appending (appending w ds cs) ds' cs' = appending w (ds @ ds') (cs @ cs')"
  by (simp add: appending_def)

lemma plugin_appending [simp]:
  "plugin (appending w ds cs) = (plugin w)\<lparr>errors := errors (plugin w) @ ds\<rparr>"
  by (simp add: appending_def)

lemma calls_appending [simp]: "calls (appending w ds cs) = calls w @ cs"
  by (simp add: appending_def)

lemma firstRejected_append:
  "firstRejected (ps @ qs) =
     (case firstRejected ps of Rejected r \<Rightarrow> Rejected r | Fulfilled \<Rightarrow> firstRejected qs)"
proof (induction ps)
  case Nil
  show ?case by simp
next
  case (Cons p ps)
  then show ?case by (cases p) simp_all
qed

lemma firstRejected_Fulfilled_iff:
  "firstRejected ps = Fulfilled \<longleftrightarrow> (\<forall>p\<in>set ps. \<exists>a. p = Inr a)"
proof (induction ps)
  case Nil
  show ?case by simp
next
  case (Cons p ps)
  then show ?case by (cases p) simp_all
qed

lemma awaited_append:
  "awaited env this filepath (codes @ codes') =
     awaited env this filepath codes @ awaited env this filepath codes'"
  by (simp add: awaited_def)

lemma awaited_Nil [simp]: "awaited env this filepath [] = []"
  by (simp add: awaited_def)

lemma awaited_Cons:
  "awaited env this filepath (code # codes) =
     build env this filepath code @ awaited env this filepath codes"
  by (simp add: awaited_def)

lemma build_errors [simp]: "build env (this\<lparr>errors := es\<rparr>) = build env this"
  by (simp add: build_def fun_eq_iff split: option.splits)

lemma awaited_errors [simp]: "awaited env (this\<lparr>errors := es\<rparr>) = awaited env this"
  by (simp add: awaited_def fun_eq_iff)

lemma tryParse_appends:
  "tryParse env w filepath code =
     (firstRejected (build env (plugin w) filepath code),
      appending w (concat (map pushed (build env (plugin w) filepath code)))
        [ParseCall filepath code (ecmaVersion (plugin w))])"
  by (simp add: tryParse_def build_def appending_def Let_def split: option.splits sum.splits)

lemma parsedScripts_errors [simp]:
  "parsedScripts env (this\<lparr>errors := es\<rparr>) = parsedScripts env this"
  by (simp add: parsedScripts_def fun_eq_iff)

lemma checkScripts_appends:
  "checkScripts env w filepath htmlScripts =
     (firstRejected (awaited env (plugin w) filepath (parsedScripts env (plugin w) filepath htmlScripts)),
      appending w
        (concat (map pushed
           (awaited env (plugin w) filepath (parsedScripts env (plugin w) filepath htmlScripts))))
        (map (\<lambda>script. ParseCall filepath script (ecmaVersion (plugin w)))
           (parsedScripts env (plugin w) filepath htmlScripts)))"
proof (induction htmlScripts arbitrary: w)
  case Nil
  show ?case by (simp add: parsedScripts_def)
next
  case (Cons script htmlScripts)
  show ?case
  proof (cases "checkIsExclude env filepath (exclude (plugin w))")
    case True
    with Cons.IH [of w] show ?thesis
      by (simp add: parsedScripts_def)
  next
    case False
    let ?w1 = "appending w (concat (map pushed (build env (plugin w) filepath script)))
        [ParseCall filepath script (ecmaVersion (plugin w))]"
    from False have excl: "\<not> checkIsExclude env filepath (exclude (plugin ?w1))"
      by simp
    show ?thesis
    proof (cases "firstRejected (build env (plugin w) filepath script)")
      case Fulfilled
      with False excl Cons.IH [of ?w1] show ?thesis
        by (simp add: tryParse_appends parsedScripts_def awaited_Cons firstRejected_append)
    next
      case (Rejected r)
      with False excl Cons.IH [of ?w1] show ?thesis
        by (simp add: tryParse_appends parsedScripts_def awaited_Cons firstRejected_append)
    qed
  qed
qed

lemma htmlParsed_errors [simp]: "htmlParsed env (this\<lparr>errors := es\<rparr>) = htmlParsed env this"
  by (simp add: htmlParsed_def fun_eq_iff split: sum.splits)

lemma htmlSettled_errors [simp]: "htmlSettled env (this\<lparr>errors := es\<rparr>) = htmlSettled env this"
  by (simp add: htmlSettled_def fun_eq_iff split: settled.splits)

lemma jsSettled_errors [simp]: "jsSettled env (this\<lparr>errors := es\<rparr>) = jsSettled env this"
  by (simp add: jsSettled_def fun_eq_iff split: settled.splits)

lemma fileSettled_errors [simp]: "fileSettled env (this\<lparr>errors := es\<rparr>) = fileSettled env this"
  by (simp add: fileSettled_def fun_eq_iff split: settled.splits)

lemma checkHtml_appends:
  "checkHtml env w filepath =
     (htmlSettled env (plugin w) filepath,
      appending w
        (concat (map pushed (awaited env (plugin w) filepath (htmlParsed env (plugin w) filepath))))
        ((if HTML_REGEX filepath then [GenerateHtmlScriptsCall filepath] else []) @
         map (\<lambda>code. ParseCall filepath code (ecmaVersion (plugin w)))
           (htmlParsed env (plugin w) filepath)))"
proof (cases "HTML_REGEX filepath")
  case False
  then show ?thesis by (simp add: checkHtml_def htmlSettled_def htmlRead_def htmlParsed_def)
next
  case True
  have w1: "w\<lparr>calls := calls w @ [GenerateHtmlScriptsCall filepath]\<rparr> =
      appending w [] [GenerateHtmlScriptsCall filepath]"
    by (simp add: appending_def)
  show ?thesis
  proof (cases "generateHtmlScripts env filepath")
    case (Inl r)
    with True w1 show ?thesis
      by (simp add: checkHtml_def htmlSettled_def htmlRead_def htmlParsed_def)
  next
    case (Inr htmlScripts)
    with True show ?thesis
      by (simp add: checkHtml_def htmlSettled_def htmlRead_def htmlParsed_def w1
          checkScripts_appends)
  qed
qed

lemma checkJs_appends:
  "checkJs env w filepath =
     (jsSettled env (plugin w) filepath,
      appending w
        (concat (map pushed (awaited env (plugin w) filepath (jsParsed env filepath))))
        ((if JS_REGEX filepath then [ReadFileCall filepath] else []) @
         map (\<lambda>code. ParseCall filepath code (ecmaVersion (plugin w))) (jsParsed env filepath)))"
proof (cases "JS_REGEX filepath")
  case False
  then show ?thesis by (simp add: checkJs_def jsSettled_def jsRead_def jsParsed_def)
next
  case True
  have w1: "w\<lparr>calls := calls w @ [ReadFileCall filepath]\<rparr> = appending w [] [ReadFileCall filepath]"
    by (simp add: appending_def)
  show ?thesis
  proof (cases "readFile env filepath")
    case (Inl r)
    with True w1 show ?thesis
      by (simp add: checkJs_def jsSettled_def jsRead_def jsParsed_def)
  next
    case (Inr jsScript)
    with True show ?thesis
      by (simp add: checkJs_def jsSettled_def jsRead_def jsParsed_def w1 tryParse_appends
          awaited_Cons)
  qed
qed

lemma fileParsed_errors [simp]: "fileParsed env (this\<lparr>errors := es\<rparr>) = fileParsed env this"
  by (simp add: fileParsed_def fun_eq_iff)

lemma fileBuilds_errors [simp]: "fileBuilds env (this\<lparr>errors := es\<rparr>) = fileBuilds env this"
  by (simp add: fileBuilds_def fun_eq_iff)

lemma fileDiags_errors [simp]: "fileDiags env (this\<lparr>errors := es\<rparr>) = fileDiags env this"
  by (simp add: fileDiags_def fun_eq_iff)

lemma fileCalls_errors [simp]: "fileCalls env (this\<lparr>errors := es\<rparr>) = fileCalls env this"
  by (simp add: fileCalls_def fun_eq_iff split: settled.splits)

lemma check_appends:
  "check env w filepath =
     (fileSettled env (plugin w) filepath,
      appending w (fileDiags env (plugin w) filepath) (fileCalls env (plugin w) filepath))"
proof (cases "htmlSettled env (plugin w) filepath")
  case Fulfilled
  then show ?thesis
    by (simp add: check_def checkHtml_appends checkJs_appends fileSettled_def fileDiags_def
        fileBuilds_def fileParsed_def fileCalls_def awaited_append)
next
  case (Rejected r)
  then show ?thesis
    by (simp add: check_def checkHtml_appends fileSettled_def fileDiags_def fileBuilds_def
        fileParsed_def fileCalls_def)
qed

lemma allSettled_errors [simp]:
  "allSettled env (this\<lparr>errors := es\<rparr>) fs = allSettled env this fs"
  by (induction fs) (simp_all split: settled.splits)

lemma checkAll_appends:
  "checkAll env w fs =
     (allSettled env (plugin w) fs,
      appending w (concat (map (fileDiags env (plugin w)) fs))
        (concat (map (fileCalls env (plugin w)) fs)))"
proof (induction fs arbitrary: w)
  case Nil
  show ?case by simp
next
  case (Cons filepath rest)
  show ?case
    by (cases "fileSettled env (plugin w) filepath") (simp_all add: check_appends Cons.IH)
qed

lemma files_errors [simp]: "files env (this\<lparr>errors := es\<rparr>) = files env this"
  by (simp add: files_def emittedAssets_def fun_eq_iff)

lemma afterEmit_appends:
  "afterEmit env w compilation =
     (allSettled env (plugin w) (files env (plugin w) compilation),
      appending w (runDiags env (plugin w) compilation) (runCalls env (plugin w) compilation))"
proof (cases "allSettled env (plugin w) (files env (plugin w) compilation)")
  case Fulfilled
  then show ?thesis
    by (simp add: afterEmit_def checkAll_appends runDiags_def runCalls_def appending_def)
next
  case (Rejected r)
  then show ?thesis
    by (simp add: afterEmit_def checkAll_appends runDiags_def runCalls_def)
qed

lemma suffix_last:
  assumes "suffix xs s" and "suffix ys s" and "xs \<noteq> []" and "ys \<noteq> []"
  shows "last xs = last ys"
proof -
  from assms(1) obtain as where "s = as @ xs" by (auto simp: suffix_def)
  moreover from assms(2) obtain bs where "s = bs @ ys" by (auto simp: suffix_def)
  ultimately show ?thesis using assms(3,4) by (metis last_appendR)
qed

lemma HTML_REGEX_not_JS_REGEX: "HTML_REGEX filepath \<Longrightarrow> \<not> JS_REGEX filepath"
  by (auto simp: HTML_REGEX_def JS_REGEX_def dest: suffix_last)

lemma HTML_REGEX_Nil [simp]: "\<not> HTML_REGEX []"
  by (simp add: HTML_REGEX_def)

lemma JS_REGEX_Nil [simp]: "\<not> JS_REGEX []"
  by (simp add: JS_REGEX_def)

lemma runDiags_errors [simp]: "runDiags env (this\<lparr>errors := es\<rparr>) = runDiags env this"
  by (simp add: runDiags_def fun_eq_iff)

lemma plugin_afterEmit:
  "plugin (snd (afterEmit env w compilation)) =
     (plugin w)\<lparr>errors := errors (plugin w) @ runDiags env (plugin w) compilation\<rparr>"
  by (simp add: afterEmit_appends)

lemma calls_afterEmit:
  "calls (snd (afterEmit env w compilation)) = calls w @ runCalls env (plugin w) compilation"
  by (simp add: afterEmit_appends)

lemma new_calls_afterEmit:
  "drop (length (calls w)) (calls (snd (afterEmit env w compilation))) =
     runCalls env (plugin w) compilation"
  by (simp add: calls_afterEmit)

lemma new_calls_check:
  "drop (length (calls w)) (calls (snd (check env w filepath))) = fileCalls env (plugin w) filepath"
  by (simp add: check_appends)

lemma fst_afterEmit:
  "fst (afterEmit env w compilation) = allSettled env (plugin w) (files env (plugin w) compilation)"
  by (simp add: afterEmit_appends)

lemma errors_afterEmit:
  "errors (plugin (snd (afterEmit env w compilation))) =
     errors (plugin w) @ runDiags env (plugin w) compilation"
  by (simp add: plugin_afterEmit)

lemma errors_check:
  "errors (plugin (snd (check env w filepath))) = errors (plugin w) @ fileDiags env (plugin w) filepath"
  by (simp add: check_appends)

lemma call_file_fileCalls:
  "call \<in> set (fileCalls env this filepath) \<Longrightarrow> call_file call = Some filepath"
  by (auto simp: fileCalls_def split: if_splits settled.splits)

lemma call_file_runCalls:
  "call \<in> set (runCalls env this compilation) \<Longrightarrow>
   call_file call = None \<or> (\<exists>filepath\<in>set (files env this compilation). call_file call = Some filepath)"
  by (auto simp: runCalls_def split: settled.splits dest: call_file_fileCalls)

lemma allSettled_Rejected:
  "filepath \<in> set fs \<Longrightarrow> fileSettled env this filepath = Rejected r \<Longrightarrow>
   \<exists>r'. allSettled env this fs = Rejected r'"
  by (induction fs) (auto split: settled.splits)

lemma allSettled_Fulfilled:
  "allSettled env this fs = Fulfilled \<longleftrightarrow>
     (\<forall>filepath\<in>set fs. fileSettled env this filepath = Fulfilled)"
  by (induction fs) (auto split: settled.splits)

lemma fileSettled_readFile:
  "JS_REGEX filepath \<Longrightarrow> readFile env filepath = Inl r \<Longrightarrow>
   fileSettled env this filepath = Rejected r"
  using HTML_REGEX_not_JS_REGEX [of filepath]
  by (auto simp: fileSettled_def htmlSettled_def htmlRead_def htmlParsed_def jsSettled_def
      jsRead_def)

lemma files_filter:
  "files env this compilation =
     filter (\<lambda>f. \<not> checkIsExclude env f (excludeOutput this) \<and> (HTML_REGEX f \<or> JS_REGEX f))
       (map (assetFile env compilation) (filter (\<lambda>a. source a \<noteq> None) (getAssets compilation)))"
proof -
  have "filter (\<lambda>assets. HTML_REGEX assets \<or> JS_REGEX assets)
      (map (\<lambda>a. if \<not> checkIsExclude env (assetFile env compilation a) (excludeOutput this)
                 then assetFile env compilation a else []) as) =
    filter (\<lambda>f. \<not> checkIsExclude env f (excludeOutput this) \<and> (HTML_REGEX f \<or> JS_REGEX f))
      (map (assetFile env compilation) as)" for as
    by (induction as) simp_all
  then show ?thesis
    by (simp add: files_def emittedAssets_def)
qed

lemma assetFile_getAssets [simp]:
  "assetFile env (compilation\<lparr>getAssets := as\<rparr>) = assetFile env compilation"
  by (simp add: assetFile_def outputPath_def fun_eq_iff)

lemma afterEmit_files:
  "files env (plugin w) compilation = files env (plugin w) compilation' \<Longrightarrow>
   afterEmit env w compilation = afterEmit env w compilation'"
  by (simp add: afterEmit_def)

lemma emittedAssets_remove:
  assumes "source a = None \<or> checkIsExclude env (assetFile env compilation a) (excludeOutput this)"
  shows "files env this (compilation\<lparr>getAssets := as1 @ a # as2\<rparr>) =
         files env this (compilation\<lparr>getAssets := as1 @ as2\<rparr>)"
  using assms by (auto simp: files_filter)

lemma not_in_files:
  assumes "\<forall>b\<in>set (getAssets compilation). source b \<noteq> None \<longrightarrow>
      assetFile env compilation b = filepath \<longrightarrow> checkIsExclude env filepath (excludeOutput this)"
  shows "filepath \<notin> set (files env this compilation)"
  using assms by (auto simp: files_filter)

lemma no_call_outside_files:
  assumes "filepath \<notin> set (files env (plugin w) compilation)"
    and "call \<in> set (drop (length (calls w)) (calls (snd (afterEmit env w compilation))))"
  shows "call_file call \<noteq> Some filepath"
  using assms call_file_runCalls [of call env "plugin w" compilation]
  by (auto simp: new_calls_afterEmit)

subsection \<open>The grammar version chosen by the constructor\<close>

text \<open>
  C6: when the options carry an explicit \<^verbatim>\<open>ecmaVersion\<close>, the plugin's version is
  that value and the constructed plugin does not depend on the derivation from
  \<^verbatim>\<open>targets\<close> (replacing \<^verbatim>\<open>browserslistToESVersion\<close> by any other function
  gives the same plugin); when the option is absent, the version is
  \<^verbatim>\<open>browserslistToESVersion(targets)\<close>.
\<close>

theorem explicit_ecmaVersion_wins:
  "(options_ecmaVersion options = Some v \<longrightarrow>
      ecmaVersion (constructor env options) = v \<and>
      constructor (env\<lparr>browserslistToESVersion := derive\<rparr>) options = constructor env options) \<and>
   (options_ecmaVersion options = None \<longrightarrow>
      ecmaVersion (constructor env options) =
        browserslistToESVersion env (options_targets options))"
  by (simp add: constructor_def)

theorem explicit_ecmaVersion_wins_witness:
  "ecmaVersion (constructor sample_env (sample_options\<lparr>options_ecmaVersion := Some 5\<rparr>)) = 5 \<and>
   constructor (sample_env\<lparr>browserslistToESVersion := (\<lambda>ts. 2022)\<rparr>)
     (sample_options\<lparr>options_ecmaVersion := Some 5\<rparr>) =
   constructor sample_env (sample_options\<lparr>options_ecmaVersion := Some 5\<rparr>) \<and>
   ecmaVersion (constructor sample_env sample_options) = 2015"
  using explicit_ecmaVersion_wins [of "sample_options\<lparr>options_ecmaVersion := Some 5\<rparr>" 5
      sample_env "\<lambda>ts. 2022"]
    explicit_ecmaVersion_wins [of sample_options 5 sample_env "\<lambda>ts. 2022"]
  by (simp add: sample_options_def sample_env_def)

subsection \<open>The grammar version after construction\<close>

text \<open>The operations keep the version and never call the derivation.\<close>

lemma ecmaVersion_builds:
  "ecmaVersion (plugin (builds env w compilations)) = ecmaVersion (plugin w)"
  by (induction compilations arbitrary: w) (simp_all add: plugin_afterEmit)

lemma call_version_fileCalls:
  "call \<in> set (fileCalls env this filepath) \<Longrightarrow>
   call_version call = None \<or> call_version call = Some (ecmaVersion this)"
  by (auto simp: fileCalls_def split: if_splits settled.splits)

lemma call_version_runCalls:
  "call \<in> set (runCalls env this compilation) \<Longrightarrow>
   call_version call = None \<or> call_version call = Some (ecmaVersion this)"
  by (auto simp: runCalls_def split: settled.splits dest: call_version_fileCalls)

lemma call_version_builds:
  assumes "\<forall>call\<in>set (calls w). call_version call = None \<or> call_version call = Some (ecmaVersion (plugin w))"
  shows "\<forall>call\<in>set (calls (builds env w compilations)).
           call_version call = None \<or> call_version call = Some (ecmaVersion (plugin w))"
  using assms
proof (induction compilations arbitrary: w)
  case Nil
  then show ?case by simp
next
  case (Cons compilation rest)
  have "\<forall>call\<in>set (calls (snd (afterEmit env w compilation))).
          call_version call = None \<or>
          call_version call = Some (ecmaVersion (plugin (snd (afterEmit env w compilation))))"
    using Cons.prems call_version_runCalls [of _ env "plugin w" compilation]
    by (auto simp: calls_afterEmit plugin_afterEmit)
  from Cons.IH [OF this] show ?case
    by (simp add: plugin_afterEmit)
qed

lemma tryParse_derive:
  "tryParse (env\<lparr>browserslistToESVersion := derive\<rparr>) = tryParse env"
  by (simp add: tryParse_def fun_eq_iff Let_def split: option.splits sum.splits)

lemma checkScripts_derive:
  "checkScripts (env\<lparr>browserslistToESVersion := derive\<rparr>) w filepath htmlScripts =
   checkScripts env w filepath htmlScripts"
  by (induction htmlScripts arbitrary: w)
    (simp_all add: tryParse_derive split: prod.splits settled.splits)

lemma check_derive: "check (env\<lparr>browserslistToESVersion := derive\<rparr>) = check env"
  by (simp add: check_def checkHtml_def checkJs_def checkScripts_derive tryParse_derive fun_eq_iff
      Let_def split: sum.splits prod.splits settled.splits)

lemma checkAll_derive:
  "checkAll (env\<lparr>browserslistToESVersion := derive\<rparr>) w fs = checkAll env w fs"
  by (induction fs arbitrary: w) (simp_all add: check_derive split: prod.splits settled.splits)

lemma assetFile_derive:
  "assetFile (env\<lparr>browserslistToESVersion := derive\<rparr>) = assetFile env"
  by (simp add: assetFile_def fun_eq_iff)

lemma files_derive: "files (env\<lparr>browserslistToESVersion := derive\<rparr>) = files env"
  by (simp add: files_def emittedAssets_def assetFile_derive fun_eq_iff cong: if_cong)

lemma afterEmit_derive:
  "afterEmit (env\<lparr>browserslistToESVersion := derive\<rparr>) = afterEmit env"
  by (simp add: afterEmit_def files_derive checkAll_derive fun_eq_iff)

lemma builds_derive:
  "builds (env\<lparr>browserslistToESVersion := derive\<rparr>) w compilations = builds env w compilations"
  by (induction compilations arbitrary: w) (simp_all add: afterEmit_derive)

text \<open>
  C10: \<^verbatim>\<open>tryParse\<close>, \<^verbatim>\<open>check\<close> and a run of the hook leave
  \<^verbatim>\<open>this.ecmaVersion\<close> as it is, so after any number of builds it is still the value
  the constructor computed; the builds do not depend on \<^verbatim>\<open>browserslistToESVersion\<close>
  (it is called by the constructor only); and every parse and every report logged by any
  of the builds carries the constructor's version.
\<close>

theorem ecmaVersion_never_changes:
  "ecmaVersion (plugin (snd (tryParse env w filepath code))) = ecmaVersion (plugin w) \<and>
   ecmaVersion (plugin (snd (check env w filepath))) = ecmaVersion (plugin w) \<and>
   ecmaVersion (plugin (snd (afterEmit env w compilation))) = ecmaVersion (plugin w) \<and>
   ecmaVersion (plugin (builds env (new_world env options) compilations)) =
     ecmaVersion (constructor env options) \<and>
   builds (env\<lparr>browserslistToESVersion := derive\<rparr>) w compilations = builds env w compilations \<and>
   (\<forall>call\<in>set (calls (builds env (new_world env options) compilations)).
      call_version call = None \<or> call_version call = Some (ecmaVersion (constructor env options)))"
proof -
  have "\<forall>call\<in>set (calls (builds env (new_world env options) compilations)).
      call_version call = None \<or>
      call_version call = Some (ecmaVersion (plugin (new_world env options)))"
    by (rule call_version_builds) (simp add: new_world_def)
  then show ?thesis
    by (simp add: tryParse_appends check_appends plugin_afterEmit ecmaVersion_builds builds_derive)
      (simp add: new_world_def)
qed

theorem ecmaVersion_never_changes_witness:
  "ecmaVersion (plugin (builds sample_env (new_world sample_env sample_options) [build_a, build_b])) = 2015 \<and>
   builds (sample_env\<lparr>browserslistToESVersion := (\<lambda>ts. 5)\<rparr>)
       (new_world sample_env sample_options) [build_a, build_b] =
     builds sample_env (new_world sample_env sample_options) [build_a, build_b] \<and>
   map call_version (calls (builds sample_env (new_world sample_env sample_options) [build_a, build_b])) =
     [None, Some 2015, Some 2015, None, Some 2015, Some 2015]"
proof -
  have "map call_version
      (calls (builds sample_env (new_world sample_env sample_options) [build_a, build_b])) =
     [None, Some 2015, Some 2015, None, Some 2015, Some 2015]"
    by code_simp
  moreover have "ecmaVersion (constructor sample_env sample_options) = 2015"
    by (simp add: constructor_def sample_options_def sample_env_def)
  ultimately show ?thesis
    using ecmaVersion_never_changes [of sample_env "new_world sample_env sample_options"
        "[]" "[]" build_a sample_options "[build_a, build_b]" "\<lambda>ts. 5"]
    by simp
qed

subsection \<open>The output path\<close>

text \<open>
  C9: when \<^verbatim>\<open>compilation.outputOptions.path\<close> is unset, the output path is the
  literal \<^verbatim>\<open>'dist'\<close> and every asset name, its query removed, is resolved against
  it.
\<close>

theorem unset_output_path_is_dist:
  "outputOptions_path compilation = None \<Longrightarrow>
     outputPath compilation = ''dist'' \<and>
     assetFile env compilation a = resolve env ''dist'' (resourcePath a) \<and>
     emittedAssets env this compilation =
       map (\<lambda>a. if \<not> checkIsExclude env (resolve env ''dist'' (resourcePath a)) (excludeOutput this)
                then resolve env ''dist'' (resourcePath a) else [])
         (filter (\<lambda>a. source a \<noteq> None) (getAssets compilation))"
  by (simp add: outputPath_def assetFile_def emittedAssets_def)

theorem unset_output_path_is_dist_witness:
  "outputOptions_path dist_build = None \<and> outputPath dist_build = ''dist'' \<and>
   emittedAssets sample_env (constructor sample_env sample_options) dist_build = [''dist/a.js'']"
proof -
  have h: "outputOptions_path dist_build = None"
    by (simp add: dist_build_def)
  show ?thesis
    using h unset_output_path_is_dist [OF h, of sample_env "\<lparr> name = ''a.js?v=1'', source = Some () \<rparr>"
        "constructor sample_env sample_options"]
    by (simp add: dist_build_def sample_env_def sample_options_def constructor_def resourcePath_def)
qed

subsection \<open>The errors list over repeated builds\<close>

text \<open>
  C1, as stated, fails: a run does not reset \<^verbatim>\<open>this.errors\<close>. Built alone,
  \<^verbatim>\<open>b.js\<close> parses and the report is empty; built after \<^verbatim>\<open>a.js\<close> by the same
  instance, the same run reports the diagnostic of \<^verbatim>\<open>a.js\<close>.
\<close>

theorem errors_not_reset_counterexample:
  "calls (builds sample_env (new_world sample_env sample_options) [build_b]) =
     [ReadFileCall ''/out/b.js'', ParseCall ''/out/b.js'' ''ok'' 2015, PrintErrorsCall [] 2015] \<and>
   calls (builds sample_env (new_world sample_env sample_options) [build_a, build_b]) =
     [ReadFileCall ''/out/a.js'', ParseCall ''/out/a.js'' ''a?.b'' 2015,
      PrintErrorsCall [(''/out/a.js'', ''Unexpected token'')] 2015,
      ReadFileCall ''/out/b.js'', ParseCall ''/out/b.js'' ''ok'' 2015,
      PrintErrorsCall [(''/out/a.js'', ''Unexpected token'')] 2015]"
  by code_simp

text \<open>
  C1, amended: the list is empty at construction and no run resets it. After a run it
  holds what it held before the run followed by what the same run pushes when started
  on an empty list, and a fulfilled run ends by handing that whole list to
  \<^verbatim>\<open>printErrors\<close>.
\<close>

theorem errors_accumulate:
  "errors (constructor env options) = [] \<and>
   errors (plugin (snd (afterEmit env w compilation))) =
     errors (plugin w) @
     errors (plugin (snd (afterEmit env (w\<lparr>plugin := (plugin w)\<lparr>errors := []\<rparr>\<rparr>) compilation))) \<and>
   (fst (afterEmit env w compilation) = Fulfilled \<longrightarrow>
      drop (length (calls w)) (calls (snd (afterEmit env w compilation))) =
        drop (length (calls w)) (calls (snd (checkAll env w (files env (plugin w) compilation)))) @
        [PrintErrorsCall (errors (plugin (snd (afterEmit env w compilation)))) (ecmaVersion (plugin w))])"
proof -
  have "errors (constructor env options) = []"
    by (simp add: constructor_def)
  moreover have "errors (plugin (snd (afterEmit env w compilation))) =
     errors (plugin w) @
     errors (plugin (snd (afterEmit env (w\<lparr>plugin := (plugin w)\<lparr>errors := []\<rparr>\<rparr>) compilation)))"
    by (simp add: errors_afterEmit)
  moreover have "drop (length (calls w)) (calls (snd (afterEmit env w compilation))) =
        drop (length (calls w)) (calls (snd (checkAll env w (files env (plugin w) compilation)))) @
        [PrintErrorsCall (errors (plugin (snd (afterEmit env w compilation)))) (ecmaVersion (plugin w))]"
    if "fst (afterEmit env w compilation) = Fulfilled"
    using that
    by (simp add: fst_afterEmit new_calls_afterEmit errors_afterEmit checkAll_appends runCalls_def)
  ultimately show ?thesis by blast
qed

theorem errors_accumulate_witness:
  "fst (afterEmit sample_env (snd (afterEmit sample_env (new_world sample_env sample_options) build_a))
      build_b) = Fulfilled \<and>
   errors (plugin (snd (afterEmit sample_env
     (snd (afterEmit sample_env (new_world sample_env sample_options) build_a)) build_b))) =
     [(''/out/a.js'', ''Unexpected token'')]"
proof -
  have 1: "fst (afterEmit sample_env
      (snd (afterEmit sample_env (new_world sample_env sample_options) build_a)) build_b) = Fulfilled"
    by code_simp
  have 2: "errors (plugin (snd (afterEmit sample_env (new_world sample_env sample_options) build_a))) =
      [(''/out/a.js'', ''Unexpected token'')]"
    by code_simp
  have 3: "errors (plugin (snd (afterEmit sample_env
      ((snd (afterEmit sample_env (new_world sample_env sample_options) build_a))
        \<lparr>plugin := (plugin (snd (afterEmit sample_env (new_world sample_env sample_options) build_a)))
           \<lparr>errors := []\<rparr>\<rparr>) build_b))) = []"
    by code_simp
  show ?thesis
    using 1 2 3
      errors_accumulate [of sample_env sample_options
        "snd (afterEmit sample_env (new_world sample_env sample_options) build_a)" build_b]
    by simp
qed

subsection \<open>A file that cannot be read\<close>

text \<open>
  C2, as stated, fails: with \<^verbatim>\<open>missing.js\<close> unreadable, the run is rejected with the
  read error and \<^verbatim>\<open>printErrors\<close> is never called, although \<^verbatim>\<open>a.js\<close> was still
  read and parsed.
\<close>

theorem read_failure_rejects_counterexample:
  "afterEmit sample_env (new_world sample_env sample_options) build_ab =
     (Rejected ''ENOENT'',
      \<lparr> plugin = (constructor sample_env sample_options)
          \<lparr>errors := [(''/out/a.js'', ''Unexpected token'')]\<rparr>,
        calls = [ReadFileCall ''/out/missing.js'', ReadFileCall ''/out/a.js'',
                 ParseCall ''/out/a.js'' ''a?.b'' 2015] \<rparr>)"
  by code_simp

text \<open>
  C2, amended: when the content of a JavaScript file of the run cannot be read, the
  hook's promise is rejected and the run does not call \<^verbatim>\<open>printErrors\<close>. The
  failure cancels no other check: every call and every diagnostic of the check of each
  file of the run is in the log and in \<^verbatim>\<open>this.errors\<close> after the run.
\<close>

theorem read_failure_rejects:
  assumes "filepath \<in> set (files env (plugin w) compilation)"
    and "JS_REGEX filepath"
    and "readFile env filepath = Inl r"
  shows "(\<exists>r'. fst (afterEmit env w compilation) = Rejected r') \<and>
    (\<forall>es v. PrintErrorsCall es v \<notin>
       set (drop (length (calls w)) (calls (snd (afterEmit env w compilation))))) \<and>
    (\<forall>other\<in>set (files env (plugin w) compilation).
       set (drop (length (calls w)) (calls (snd (check env w other)))) \<subseteq>
         set (drop (length (calls w)) (calls (snd (afterEmit env w compilation)))) \<and>
       set (errors (plugin (snd (check env w other)))) \<subseteq>
         set (errors (plugin (snd (afterEmit env w compilation)))))"
proof -
  from assms(2,3) have rej: "fileSettled env (plugin w) filepath = Rejected r"
    by (rule fileSettled_readFile)
  from allSettled_Rejected [OF assms(1) rej]
  obtain r' where r': "allSettled env (plugin w) (files env (plugin w) compilation) = Rejected r'" ..
  then have 1: "\<exists>r'. fst (afterEmit env w compilation) = Rejected r'"
    by (simp add: fst_afterEmit)
  have 2: "PrintErrorsCall es v \<notin>
       set (drop (length (calls w)) (calls (snd (afterEmit env w compilation))))" for es v
    using r' call_file_fileCalls [of "PrintErrorsCall es v" env "plugin w"]
    by (auto simp: new_calls_afterEmit runCalls_def)
  have 3: "set (drop (length (calls w)) (calls (snd (check env w other)))) \<subseteq>
         set (drop (length (calls w)) (calls (snd (afterEmit env w compilation)))) \<and>
       set (errors (plugin (snd (check env w other)))) \<subseteq>
         set (errors (plugin (snd (afterEmit env w compilation))))"
    if "other \<in> set (files env (plugin w) compilation)" for other
    using that
    by (auto simp: new_calls_afterEmit new_calls_check runCalls_def errors_afterEmit errors_check
        runDiags_def)
  show ?thesis
    using 1 2 3 by blast
qed

theorem read_failure_rejects_witness:
  "''/out/missing.js'' \<in> set (files sample_env (plugin (new_world sample_env sample_options)) build_ab) \<and>
   JS_REGEX ''/out/missing.js'' \<and> readFile sample_env ''/out/missing.js'' = Inl ''ENOENT'' \<and>
   (\<exists>r'. fst (afterEmit sample_env (new_world sample_env sample_options) build_ab) = Rejected r')"
proof -
  have 1: "''/out/missing.js'' \<in>
      set (files sample_env (plugin (new_world sample_env sample_options)) build_ab)"
    by code_simp
  have 2: "JS_REGEX ''/out/missing.js''"
    by code_simp
  have 3: "readFile sample_env ''/out/missing.js'' = Inl ''ENOENT''"
    by (simp add: sample_env_def)
  show ?thesis
    using 1 2 3 read_failure_rejects [OF 1 2 3] by blast
qed

subsection \<open>The exclude rule\<close>

text \<open>
  C3, as stated, fails for JavaScript files: \<^verbatim>\<open>a.js\<close> is matched by
  \<^verbatim>\<open>exclude\<close>, and its check still reads it and parses its content.
\<close>

theorem exclude_js_counterexample:
  "checkIsExclude sample_env ''/out/a.js'' (exclude (plugin (new_world sample_env exclude_options))) \<and>
   check sample_env (new_world sample_env exclude_options) ''/out/a.js'' =
     (Fulfilled,
      \<lparr> plugin = constructor sample_env exclude_options,
        calls = [ReadFileCall ''/out/a.js'', ParseCall ''/out/a.js'' ''a?.b'' 2015] \<rparr>)"
  by code_simp

text \<open>
  C3, amended: for an HTML file matched by \<^verbatim>\<open>exclude\<close>, the check extracts the
  scripts and parses none of them, and no parse of the run is about that file. For a
  JavaScript file matched by \<^verbatim>\<open>exclude\<close>, the check parses the content it read:
  the rule is only handed on to \<^verbatim>\<open>generateError\<close>.
\<close>

theorem exclude_suppresses_html_only:
  assumes "checkIsExclude env filepath (exclude (plugin w))"
  shows "(HTML_REGEX filepath \<longrightarrow>
       snd (check env w filepath) = w\<lparr>calls := calls w @ [GenerateHtmlScriptsCall filepath]\<rparr> \<and>
       (\<forall>code v. ParseCall filepath code v \<notin>
          set (drop (length (calls w)) (calls (snd (afterEmit env w compilation)))))) \<and>
     (JS_REGEX filepath \<longrightarrow>
       (\<forall>code. readFile env filepath = Inr code \<longrightarrow>
          check env w filepath =
            tryParse env (w\<lparr>calls := calls w @ [ReadFileCall filepath]\<rparr>) filepath code \<and>
          ParseCall filepath code (ecmaVersion (plugin w)) \<in> set (calls (snd (check env w filepath)))))"
proof -
  have html: "fileCalls env (plugin w) filepath = [GenerateHtmlScriptsCall filepath] \<and>
      fileDiags env (plugin w) filepath = []" if "HTML_REGEX filepath"
  proof -
    from assms have hp: "htmlParsed env (plugin w) filepath = []"
      by (simp add: htmlParsed_def parsedScripts_def split: sum.splits)
    from that have js: "\<not> JS_REGEX filepath"
      by (rule HTML_REGEX_not_JS_REGEX)
    then have jp: "jsParsed env filepath = []"
      by (simp add: jsParsed_def)
    from that js hp jp show ?thesis
      by (simp add: fileCalls_def fileDiags_def fileBuilds_def fileParsed_def
          split: settled.splits)
  qed
  have 1: "snd (check env w filepath) = w\<lparr>calls := calls w @ [GenerateHtmlScriptsCall filepath]\<rparr>"
    if "HTML_REGEX filepath"
    using html [OF that] by (simp add: check_appends appending_def)
  have 2: "ParseCall filepath code v \<notin>
      set (drop (length (calls w)) (calls (snd (afterEmit env w compilation))))"
    if "HTML_REGEX filepath" for code v
  proof
    assume "ParseCall filepath code v \<in>
      set (drop (length (calls w)) (calls (snd (afterEmit env w compilation))))"
    then obtain other where "ParseCall filepath code v \<in> set (fileCalls env (plugin w) other)"
      by (auto simp: new_calls_afterEmit runCalls_def split: settled.splits)
    moreover from this have "other = filepath"
      using call_file_fileCalls by fastforce
    ultimately show False
      using html [OF that] by simp
  qed
  have 3: "check env w filepath =
        tryParse env (w\<lparr>calls := calls w @ [ReadFileCall filepath]\<rparr>) filepath code \<and>
      ParseCall filepath code (ecmaVersion (plugin w)) \<in> set (calls (snd (check env w filepath)))"
    if "JS_REGEX filepath" and "readFile env filepath = Inr code" for code
  proof -
    from that(1) have "\<not> HTML_REGEX filepath"
      using HTML_REGEX_not_JS_REGEX by blast
    with that show ?thesis
      by (simp add: check_def checkHtml_def checkJs_def tryParse_appends)
  qed
  show ?thesis
    using 1 2 3 by blast
qed

theorem exclude_suppresses_html_only_witness:
  "checkIsExclude sample_env ''/out/index.html'' (exclude (plugin (new_world sample_env exclude_options))) \<and>
   HTML_REGEX ''/out/index.html'' \<and>
   snd (check sample_env (new_world sample_env exclude_options) ''/out/index.html'') =
     (new_world sample_env exclude_options)\<lparr>calls := [GenerateHtmlScriptsCall ''/out/index.html'']\<rparr> \<and>
   checkIsExclude sample_env ''/out/a.js'' (exclude (plugin (new_world sample_env exclude_options))) \<and>
   JS_REGEX ''/out/a.js'' \<and> readFile sample_env ''/out/a.js'' = Inr ''a?.b'' \<and>
   ParseCall ''/out/a.js'' ''a?.b'' 2015 \<in>
     set (calls (snd (check sample_env (new_world sample_env exclude_options) ''/out/a.js'')))"
proof -
  have 1: "checkIsExclude sample_env ''/out/index.html''
      (exclude (plugin (new_world sample_env exclude_options)))"
    by code_simp
  have 2: "HTML_REGEX ''/out/index.html''"
    by code_simp
  have 3: "checkIsExclude sample_env ''/out/a.js''
      (exclude (plugin (new_world sample_env exclude_options)))"
    by code_simp
  have 4: "JS_REGEX ''/out/a.js''"
    by code_simp
  have 5: "readFile sample_env ''/out/a.js'' = Inr ''a?.b''"
    by (simp add: sample_env_def)
  have 6: "ecmaVersion (plugin (new_world sample_env exclude_options)) = 2015"
    by code_simp
  have 7: "calls (new_world sample_env exclude_options) = []"
    by (simp add: new_world_def)
  from exclude_suppresses_html_only [OF 1, of build_html] 2
  have "snd (check sample_env (new_world sample_env exclude_options) ''/out/index.html'') =
      (new_world sample_env exclude_options)
        \<lparr>calls := calls (new_world sample_env exclude_options) @
           [GenerateHtmlScriptsCall ''/out/index.html'']\<rparr>"
    by blast
  then have a: "snd (check sample_env (new_world sample_env exclude_options) ''/out/index.html'') =
      (new_world sample_env exclude_options)\<lparr>calls := [GenerateHtmlScriptsCall ''/out/index.html'']\<rparr>"
    by (simp only: 7 append_Nil)
  from exclude_suppresses_html_only [OF 3, of build_html] 4 5
  have "ParseCall ''/out/a.js'' ''a?.b'' (ecmaVersion (plugin (new_world sample_env exclude_options))) \<in>
      set (calls (snd (check sample_env (new_world sample_env exclude_options) ''/out/a.js'')))"
    by blast
  then have b: "ParseCall ''/out/a.js'' ''a?.b'' 2015 \<in>
      set (calls (snd (check sample_env (new_world sample_env exclude_options) ''/out/a.js'')))"
    by (simp only: 6)
  from 1 2 a 3 4 5 b show ?thesis
    by blast
qed

subsection \<open>Collecting the files to check\<close>

text \<open>
  C4: the files of a run are the assets' names, each cut at its first question mark and
  resolved against the output path, that are not matched by \<^verbatim>\<open>excludeOutput\<close> and
  end in an HTML or JavaScript extension; every file read, extracted from or parsed
  during the run is one of them. In particular no call of the run is about the file of
  an asset matched by \<^verbatim>\<open>excludeOutput\<close>, and the run (its outcome, the
  diagnostics it pushes and its log) is the same as when that asset had not been emitted.
\<close>

theorem collecting_filters:
  "files env (plugin w) compilation =
     filter (\<lambda>f. \<not> checkIsExclude env f (excludeOutput (plugin w)) \<and> (HTML_REGEX f \<or> JS_REGEX f))
       (map (\<lambda>a. resolve env (outputPath compilation) (takeWhile (\<lambda>c. c \<noteq> CHR ''?'') (name a)))
          (filter (\<lambda>a. source a \<noteq> None) (getAssets compilation))) \<and>
   (\<forall>call\<in>set (drop (length (calls w)) (calls (snd (afterEmit env w compilation)))).
      call_file call = None \<or>
      (\<exists>filepath\<in>set (files env (plugin w) compilation). call_file call = Some filepath)) \<and>
   (checkIsExclude env (assetFile env compilation a) (excludeOutput (plugin w)) \<longrightarrow>
      (\<forall>call\<in>set (drop (length (calls w)) (calls (snd (afterEmit env w compilation)))).
         call_file call \<noteq> Some (assetFile env compilation a)) \<and>
      afterEmit env w (compilation\<lparr>getAssets := as1 @ a # as2\<rparr>) =
        afterEmit env w (compilation\<lparr>getAssets := as1 @ as2\<rparr>))"
proof -
  have 1: "files env (plugin w) compilation =
     filter (\<lambda>f. \<not> checkIsExclude env f (excludeOutput (plugin w)) \<and> (HTML_REGEX f \<or> JS_REGEX f))
       (map (\<lambda>a. resolve env (outputPath compilation) (takeWhile (\<lambda>c. c \<noteq> CHR ''?'') (name a)))
          (filter (\<lambda>a. source a \<noteq> None) (getAssets compilation)))"
  proof -
    have "assetFile env compilation =
        (\<lambda>a. resolve env (outputPath compilation) (takeWhile (\<lambda>c. c \<noteq> CHR ''?'') (name a)))"
      by (simp add: fun_eq_iff assetFile_def resourcePath_def)
    then show ?thesis
      by (simp add: files_filter)
  qed
  have 2: "\<forall>call\<in>set (drop (length (calls w)) (calls (snd (afterEmit env w compilation)))).
      call_file call = None \<or>
      (\<exists>filepath\<in>set (files env (plugin w) compilation). call_file call = Some filepath)"
    using call_file_runCalls [of _ env "plugin w" compilation]
    by (simp add: new_calls_afterEmit)
  have 3: "(\<forall>call\<in>set (drop (length (calls w)) (calls (snd (afterEmit env w compilation)))).
         call_file call \<noteq> Some (assetFile env compilation a)) \<and>
      afterEmit env w (compilation\<lparr>getAssets := as1 @ a # as2\<rparr>) =
        afterEmit env w (compilation\<lparr>getAssets := as1 @ as2\<rparr>)"
    if excl: "checkIsExclude env (assetFile env compilation a) (excludeOutput (plugin w))"
  proof
    from excl have "assetFile env compilation a \<notin> set (files env (plugin w) compilation)"
      by (intro not_in_files) simp
    then show "\<forall>call\<in>set (drop (length (calls w)) (calls (snd (afterEmit env w compilation)))).
         call_file call \<noteq> Some (assetFile env compilation a)"
      using no_call_outside_files by blast
    from excl show "afterEmit env w (compilation\<lparr>getAssets := as1 @ a # as2\<rparr>) =
        afterEmit env w (compilation\<lparr>getAssets := as1 @ as2\<rparr>)"
      by (intro afterEmit_files emittedAssets_remove) simp
  qed
  show ?thesis
    using 1 2 3 by blast
qed

theorem collecting_filters_witness:
  "checkIsExclude sample_env
     (assetFile sample_env build_html \<lparr> name = ''a.js?v=1'', source = Some () \<rparr>)
     (excludeOutput (plugin (new_world sample_env excludeOutput_options))) \<and>
   files sample_env (plugin (new_world sample_env excludeOutput_options)) build_html =
     [''/out/index.html''] \<and>
   afterEmit sample_env (new_world sample_env excludeOutput_options)
     (build_html\<lparr>getAssets := [\<lparr> name = ''index.html'', source = Some () \<rparr>] @
        \<lparr> name = ''a.js?v=1'', source = Some () \<rparr> # []\<rparr>) =
   afterEmit sample_env (new_world sample_env excludeOutput_options)
     (build_html\<lparr>getAssets := [\<lparr> name = ''index.html'', source = Some () \<rparr>] @ []\<rparr>) \<and>
   map call_file
     (calls (snd (afterEmit sample_env (new_world sample_env excludeOutput_options) build_html))) =
     [Some ''/out/index.html'', Some ''/out/index.html'', Some ''/out/index.html'', None]"
proof -
  have 1: "checkIsExclude sample_env
     (assetFile sample_env build_html \<lparr> name = ''a.js?v=1'', source = Some () \<rparr>)
     (excludeOutput (plugin (new_world sample_env excludeOutput_options)))"
    by code_simp
  have 2: "files sample_env (plugin (new_world sample_env excludeOutput_options)) build_html =
     [''/out/index.html'']"
    by code_simp
  have 3: "map call_file
     (calls (snd (afterEmit sample_env (new_world sample_env excludeOutput_options) build_html))) =
     [Some ''/out/index.html'', Some ''/out/index.html'', Some ''/out/index.html'', None]"
    by code_simp
  from 1 collecting_filters [where env = sample_env
      and w = "new_world sample_env excludeOutput_options" and compilation = build_html
      and a = "\<lparr> name = ''a.js?v=1'', source = Some () \<rparr>"
      and ?as1.0 = "[\<lparr> name = ''index.html'', source = Some () \<rparr>]" and ?as2.0 = "[]"]
  have 4: "afterEmit sample_env (new_world sample_env excludeOutput_options)
     (build_html\<lparr>getAssets := [\<lparr> name = ''index.html'', source = Some () \<rparr>] @
        \<lparr> name = ''a.js?v=1'', source = Some () \<rparr> # []\<rparr>) =
   afterEmit sample_env (new_world sample_env excludeOutput_options)
     (build_html\<lparr>getAssets := [\<lparr> name = ''index.html'', source = Some () \<rparr>] @ []\<rparr>)"
    by blast
  from 1 2 4 3 show ?thesis
    by blast
qed

text \<open>
  C8: an asset with no source is dropped by the first filter: the emitted assets, and
  with them the whole run, are the same as when it had not been emitted; and unless
  another asset that has a source resolves to the same file, that file is not among the
  files of the run and no call of the run is about it.
\<close>

theorem sourceless_asset_dropped:
  assumes "source a = None"
  shows "emittedAssets env (plugin w) (compilation\<lparr>getAssets := as1 @ a # as2\<rparr>) =
       emittedAssets env (plugin w) (compilation\<lparr>getAssets := as1 @ as2\<rparr>) \<and>
     afterEmit env w (compilation\<lparr>getAssets := as1 @ a # as2\<rparr>) =
       afterEmit env w (compilation\<lparr>getAssets := as1 @ as2\<rparr>) \<and>
     ((\<forall>b\<in>set (getAssets compilation). source b \<noteq> None \<longrightarrow>
          assetFile env compilation b \<noteq> assetFile env compilation a) \<longrightarrow>
      assetFile env compilation a \<notin> set (files env (plugin w) compilation) \<and>
      (\<forall>call\<in>set (drop (length (calls w)) (calls (snd (afterEmit env w compilation)))).
         call_file call \<noteq> Some (assetFile env compilation a)))"
proof -
  have 1: "emittedAssets env (plugin w) (compilation\<lparr>getAssets := as1 @ a # as2\<rparr>) =
       emittedAssets env (plugin w) (compilation\<lparr>getAssets := as1 @ as2\<rparr>)"
    using assms by (simp add: emittedAssets_def)
  have 2: "afterEmit env w (compilation\<lparr>getAssets := as1 @ a # as2\<rparr>) =
       afterEmit env w (compilation\<lparr>getAssets := as1 @ as2\<rparr>)"
    using assms by (intro afterEmit_files emittedAssets_remove) simp
  have 3: "assetFile env compilation a \<notin> set (files env (plugin w) compilation) \<and>
      (\<forall>call\<in>set (drop (length (calls w)) (calls (snd (afterEmit env w compilation)))).
         call_file call \<noteq> Some (assetFile env compilation a))"
    if "\<forall>b\<in>set (getAssets compilation). source b \<noteq> None \<longrightarrow>
          assetFile env compilation b \<noteq> assetFile env compilation a"
  proof -
    from that have "assetFile env compilation a \<notin> set (files env (plugin w) compilation)"
      by (intro not_in_files) blast
    then show ?thesis
      using no_call_outside_files by blast
  qed
  show ?thesis
    using 1 2 3 by blast
qed

theorem sourceless_asset_dropped_witness:
  "source \<lparr> name = ''a.js'', source = (None :: unit option) \<rparr> = None \<and>
   afterEmit sample_env (new_world sample_env sample_options)
     (build_sourceless\<lparr>getAssets := [] @ \<lparr> name = ''a.js'', source = None \<rparr> #
        [\<lparr> name = ''b.js'', source = Some () \<rparr>]\<rparr>) =
   afterEmit sample_env (new_world sample_env sample_options)
     (build_sourceless\<lparr>getAssets := [] @ [\<lparr> name = ''b.js'', source = Some () \<rparr>]\<rparr>) \<and>
   assetFile sample_env build_sourceless \<lparr> name = ''a.js'', source = None \<rparr> \<notin>
     set (files sample_env (plugin (new_world sample_env sample_options)) build_sourceless) \<and>
   calls (snd (afterEmit sample_env (new_world sample_env sample_options) build_sourceless)) =
     [ReadFileCall ''/out/b.js'', ParseCall ''/out/b.js'' ''ok'' 2015, PrintErrorsCall [] 2015]"
proof -
  have 1: "source \<lparr> name = ''a.js'', source = (None :: unit option) \<rparr> = None"
    by simp
  have 2: "\<forall>b\<in>set (getAssets build_sourceless). source b \<noteq> None \<longrightarrow>
      assetFile sample_env build_sourceless b \<noteq>
      assetFile sample_env build_sourceless \<lparr> name = ''a.js'', source = None \<rparr>"
    by (simp add: build_sourceless_def assetFile_def resourcePath_def sample_env_def)
  have 3: "calls (snd (afterEmit sample_env (new_world sample_env sample_options) build_sourceless)) =
     [ReadFileCall ''/out/b.js'', ParseCall ''/out/b.js'' ''ok'' 2015, PrintErrorsCall [] 2015]"
    by code_simp
  from 2 sourceless_asset_dropped [OF 1, where env = sample_env
      and w = "new_world sample_env sample_options" and compilation = build_sourceless
      and ?as1.0 = "[]" and ?as2.0 = "[\<lparr> name = ''b.js'', source = Some () \<rparr>]"]
  have "afterEmit sample_env (new_world sample_env sample_options)
     (build_sourceless\<lparr>getAssets := [] @ \<lparr> name = ''a.js'', source = None \<rparr> #
        [\<lparr> name = ''b.js'', source = Some () \<rparr>]\<rparr>) =
   afterEmit sample_env (new_world sample_env sample_options)
     (build_sourceless\<lparr>getAssets := [] @ [\<lparr> name = ''b.js'', source = Some () \<rparr>]\<rparr>) \<and>
   assetFile sample_env build_sourceless \<lparr> name = ''a.js'', source = None \<rparr> \<notin>
     set (files sample_env (plugin (new_world sample_env sample_options)) build_sourceless)"
    by blast
  with 1 3 show ?thesis
    by blast
qed

subsection \<open>Reporting waits for every check\<close>

text \<open>How a check settles, from its first await and the promises it awaits then.\<close>

lemma fileSettled_fileRead:
  "fileSettled env this filepath =
     (case fileRead env filepath of
        Rejected r \<Rightarrow> Rejected r
      | Fulfilled \<Rightarrow> firstRejected (fileBuilds env this filepath))"
proof (cases "HTML_REGEX filepath")
  case True
  then have js: "\<not> JS_REGEX filepath"
    by (rule HTML_REGEX_not_JS_REGEX)
  then have "jsRead env filepath = Fulfilled" and "jsParsed env filepath = []"
    and "jsSettled env this filepath = Fulfilled"
    by (simp_all add: jsRead_def jsParsed_def jsSettled_def)
  then show ?thesis
    by (simp add: fileSettled_def fileRead_def fileBuilds_def fileParsed_def htmlSettled_def
        split: settled.splits)
next
  case False
  then have "htmlRead env filepath = Fulfilled" and "htmlParsed env this filepath = []"
    by (simp_all add: htmlRead_def htmlParsed_def)
  then show ?thesis
    by (simp add: fileSettled_def fileRead_def fileBuilds_def fileParsed_def htmlSettled_def
        jsSettled_def split: settled.splits)
qed

lemma fileBuilds_Rejected:
  assumes "fileRead env filepath = Rejected r"
  shows "fileBuilds env this filepath = []"
proof (cases "HTML_REGEX filepath")
  case True
  then have "jsRead env filepath = Fulfilled" and jp: "jsParsed env filepath = []"
    using HTML_REGEX_not_JS_REGEX by (simp_all add: jsRead_def jsParsed_def)
  with assms have "htmlRead env filepath = Rejected r"
    by (simp add: fileRead_def split: settled.splits)
  with True have "htmlParsed env this filepath = []"
    by (simp add: htmlRead_def htmlParsed_def split: sum.splits)
  with jp show ?thesis
    by (simp add: fileBuilds_def fileParsed_def split: settled.splits)
next
  case False
  then have html: "htmlRead env filepath = Fulfilled" "htmlParsed env this filepath = []"
    by (simp_all add: htmlRead_def htmlParsed_def)
  with assms have js: "jsRead env filepath = Rejected r"
    by (simp add: fileRead_def)
  have "jsParsed env filepath = []"
  proof (cases "JS_REGEX filepath")
    case True
    with js show ?thesis
      by (simp add: jsRead_def jsParsed_def split: sum.splits)
  next
    case False
    then show ?thesis
      by (simp add: jsParsed_def)
  qed
  with html show ?thesis
    by (simp add: fileBuilds_def fileParsed_def split: settled.splits)
qed

text \<open>Every action keeps the invariant of a run.\<close>

lemma all_left_update:
  assumes "i < length ts" and "length fs = length ts"
    and "left env this (fs ! i) (ts ! i) = m + left env this (fs ! i) t"
  shows "all_left env this fs ts = m + all_left env this fs (ts[i := t])"
  using assms
proof (induction ts arbitrary: fs i)
  case Nil
  then show ?case by simp
next
  case (Cons t0 ts)
  then obtain filepath fs' where fs: "fs = filepath # fs'"
    by (cases fs) auto
  show ?case
  proof (cases i)
    case 0
    with Cons.prems fs show ?thesis by simp
  next
    case (Suc k)
    with Cons.prems fs have "all_left env this fs' ts = m + all_left env this fs' (ts[k := t])"
      by (intro Cons.IH) auto
    with Suc fs show ?thesis by simp
  qed
qed

lemma all_left_dispatch:
  "all_left env this fs (map (\<lambda>filepath. Pending) fs) = mset (concat (map (fileDiags env this) fs))"
  by (induction fs) simp_all

lemma all_left_Done:
  "list_all (\<lambda>t. t = Done) ts \<Longrightarrow> all_left env this fs ts = {#}"
proof (induction ts arbitrary: fs)
  case Nil
  show ?case by (cases fs) simp_all
next
  case (Cons t ts)
  then show ?case by (cases fs) simp_all
qed

lemma pushed_remove_nth:
  assumes "j < length ps"
  shows "mset (concat (map pushed ps)) =
     mset (pushed (ps ! j)) + mset (concat (map pushed (take j ps @ drop (Suc j) ps)))"
proof -
  from assms have "ps = take j ps @ ps ! j # drop (Suc j) ps"
    by (rule id_take_nth_drop)
  then have "mset (concat (map pushed ps)) =
      mset (concat (map pushed (take j ps @ ps ! j # drop (Suc j) ps)))"
    by simp
  then show ?thesis by simp
qed

lemma firstRejected_remove_nth:
  assumes "j < length ps" and "ps ! j = Inr a"
    and "firstRejected (take j ps @ drop (Suc j) ps) = Fulfilled"
  shows "firstRejected ps = Fulfilled"
proof -
  from assms(1) have "ps = take j ps @ ps ! j # drop (Suc j) ps"
    by (rule id_take_nth_drop)
  then have "set ps = insert (ps ! j) (set (take j ps @ drop (Suc j) ps))"
    by (metis Un_insert_right list.simps(15) set_append)
  with assms(2,3) show ?thesis
    by (auto simp: firstRejected_Fulfilled_iff)
qed

lemma settle_with_Fulfilled:
  "settle_with s p = Fulfilled \<Longrightarrow> s = Fulfilled \<and> (\<exists>a. p = Inr a)"
  by (cases s; cases p) simp_all

lemma rejecting_Printed: "rejecting r h = Printed es v \<Longrightarrow> h = Printed es v"
  by (cases h) simp_all

lemma hook_after_Printed: "hook_after p h = Printed es v \<Longrightarrow> h = Printed es v"
  by (cases p) (simp_all add: rejecting_Printed)

lemma run_inv_dispatch: "run_inv env this fs (dispatch this fs)"
  by (simp add: run_inv_def dispatch_def all_left_dispatch)

lemma not_all_Done:
  "i < length ts \<Longrightarrow> ts ! i \<noteq> Done \<Longrightarrow> \<not> list_all (\<lambda>t. t = Done) ts"
  by (auto simp: list_all_length)

lemma run_inv_settled:
  "run_inv env this fs \<rho> \<Longrightarrow> k < length fs \<Longrightarrow>
   tasks \<rho> ! k = Done \<or>
     (\<exists>ps. tasks \<rho> ! k = Running Fulfilled ps \<and> firstRejected ps = Fulfilled) \<Longrightarrow>
   fileSettled env this (fs ! k) = Fulfilled"
  unfolding run_inv_def by blast

lemma run_inv_update:
  assumes inv: "run_inv env this fs \<rho>"
    and i: "i < length (tasks \<rho>)"
    and old: "tasks \<rho> ! i \<noteq> Done"
    and lft: "left env this (fs ! i) (tasks \<rho> ! i) = mset ds + left env this (fs ! i) t"
    and ok: "t = Done \<or> (\<exists>ps. t = Running Fulfilled ps \<and> firstRejected ps = Fulfilled) \<Longrightarrow>
      fileSettled env this (fs ! i) = Fulfilled"
    and hk: "\<And>es v. h = Printed es v \<Longrightarrow> hook \<rho> = Printed es v"
  shows "run_inv env this fs
    (\<rho>\<lparr>this_errors := this_errors \<rho> @ ds, tasks := (tasks \<rho>)[i := t], hook := h\<rparr>)"
proof -
  from inv have len: "length (tasks \<rho>) = length fs"
    by (simp add: run_inv_def)
  from inv have total: "mset (this_errors \<rho>) + all_left env this fs (tasks \<rho>) =
      mset (errors this) + mset (concat (map (fileDiags env this) fs))"
    by (simp add: run_inv_def)
  from i len lft have "all_left env this fs (tasks \<rho>) =
      mset ds + all_left env this fs ((tasks \<rho>)[i := t])"
    by (intro all_left_update) simp_all
  with total have 2: "mset (this_errors \<rho> @ ds) + all_left env this fs ((tasks \<rho>)[i := t]) =
      mset (errors this) + mset (concat (map (fileDiags env this) fs))"
    by (simp add: ac_simps)
  have 3: "fileSettled env this (fs ! k) = Fulfilled"
    if "k < length fs"
      and "(tasks \<rho>)[i := t] ! k = Done \<or>
        (\<exists>ps. (tasks \<rho>)[i := t] ! k = Running Fulfilled ps \<and> firstRejected ps = Fulfilled)"
    for k
  proof (cases "k = i")
    case True
    with that i ok show ?thesis by simp
  next
    case False
    with that inv show ?thesis by (auto intro: run_inv_settled)
  qed
  have 4: False if "h = Printed es v" for es v
  proof -
    from that have "hook \<rho> = Printed es v" by (rule hk)
    with inv have "list_all (\<lambda>t. t = Done) (tasks \<rho>)"
      by (simp add: run_inv_def)
    with i old show False
      using not_all_Done by blast
  qed
  show ?thesis
    unfolding run_inv_def using len 2 3 4 by auto
qed

lemma run_inv_act:
  assumes inv: "run_inv env this fs \<rho>"
  shows "run_inv env this fs (act env this fs a \<rho>)"
proof (cases a)
  case (Settle i)
  show ?thesis
  proof (cases "i < length fs \<and> i < length (tasks \<rho>) \<and> tasks \<rho> ! i = Pending")
    case False
    with Settle inv show ?thesis by auto
  next
    case True
    show ?thesis
    proof (cases "fileRead env (fs ! i)")
      case Fulfilled
      then have ok: "fileSettled env this (fs ! i) = Fulfilled"
        if "firstRejected (fileBuilds env this (fs ! i)) = Fulfilled"
        using that by (simp add: fileSettled_fileRead)
      have "run_inv env this fs
        (\<rho>\<lparr>this_errors := this_errors \<rho> @ [],
           tasks := (tasks \<rho>)[i := Running Fulfilled (fileBuilds env this (fs ! i))],
           hook := hook \<rho>\<rparr>)"
        using inv True ok by (intro run_inv_update) (auto simp: fileDiags_def)
      with Settle True Fulfilled show ?thesis by simp
    next
      case (Rejected r)
      then have "fileDiags env this (fs ! i) = []"
        by (simp add: fileDiags_def fileBuilds_Rejected)
      then have "run_inv env this fs
        (\<rho>\<lparr>this_errors := this_errors \<rho> @ [], tasks := (tasks \<rho>)[i := Running (Rejected r) []],
           hook := rejecting r (hook \<rho>)\<rparr>)"
        using inv True
        by (intro run_inv_update) (auto dest: rejecting_Printed)
      with Settle True Rejected show ?thesis by simp
    qed
  qed
next
  case (Build i j)
  show ?thesis
  proof (cases "i < length (tasks \<rho>) \<and> (\<exists>s ps. tasks \<rho> ! i = Running s ps \<and> j < length ps)")
    case False
    with Build inv show ?thesis by (auto split: task.splits)
  next
    case True
    then obtain s ps where ps: "i < length (tasks \<rho>)" "tasks \<rho> ! i = Running s ps" "j < length ps"
      by blast
    from inv ps(1) have i: "i < length fs"
      by (simp add: run_inv_def)
    have ok: "fileSettled env this (fs ! i) = Fulfilled"
      if "settle_with s (ps ! j) = Fulfilled"
        and "firstRejected (take j ps @ drop (Suc j) ps) = Fulfilled"
    proof -
      from that(1) obtain a where "s = Fulfilled" and "ps ! j = Inr a"
        using settle_with_Fulfilled by blast
      with ps that(2) have "tasks \<rho> ! i = Running Fulfilled ps \<and> firstRejected ps = Fulfilled"
        by (simp add: firstRejected_remove_nth)
      with inv i show ?thesis
        by (auto intro: run_inv_settled)
    qed
    have "run_inv env this fs
      (\<rho>\<lparr>this_errors := this_errors \<rho> @ pushed (ps ! j),
         tasks := (tasks \<rho>)[i := Running (settle_with s (ps ! j)) (take j ps @ drop (Suc j) ps)],
         hook := hook_after (ps ! j) (hook \<rho>)\<rparr>)"
      using inv ps ok pushed_remove_nth [OF ps(3)]
      by (intro run_inv_update) (auto dest: hook_after_Printed)
    with Build ps show ?thesis by simp
  qed
next
  case (Finish i)
  show ?thesis
  proof (cases "i < length (tasks \<rho>) \<and> tasks \<rho> ! i = Running Fulfilled []")
    case False
    with Finish inv show ?thesis by auto
  next
    case True
    from inv True have "i < length fs"
      by (simp add: run_inv_def)
    with inv True have ok: "fileSettled env this (fs ! i) = Fulfilled"
      by (auto intro: run_inv_settled)
    have "run_inv env this fs
      (\<rho>\<lparr>this_errors := this_errors \<rho> @ [], tasks := (tasks \<rho>)[i := Done], hook := hook \<rho>\<rparr>)"
      using inv True ok by (intro run_inv_update) simp_all
    with Finish True show ?thesis by simp
  qed
next
  case Print
  with inv show ?thesis
    by (auto simp: run_inv_def)
qed

lemma run_inv_fold:
  "run_inv env this fs \<rho> \<Longrightarrow> run_inv env this fs (fold (act env this fs) schedule \<rho>)"
  by (induction schedule arbitrary: \<rho>) (simp_all add: run_inv_act)

lemma run_inv_interleaved: "run_inv env this fs (interleaved env this fs schedule)"
  by (simp add: interleaved_def run_inv_fold run_inv_dispatch)

lemma all_Fulfilled:
  assumes "run_inv env this fs \<rho>" and "list_all (\<lambda>t. t = Done) (tasks \<rho>)"
  shows "\<forall>filepath\<in>set fs. fileSettled env this filepath = Fulfilled"
proof
  fix filepath
  assume "filepath \<in> set fs"
  then obtain k where k: "k < length fs" "fs ! k = filepath"
    by (auto simp: in_set_conv_nth)
  from assms(1) have "length (tasks \<rho>) = length fs"
    by (simp add: run_inv_def)
  with assms(2) k(1) have "tasks \<rho> ! k = Done"
    by (simp add: list_all_length)
  with assms(1) k show "fileSettled env this filepath = Fulfilled"
    by (auto dest: run_inv_settled)
qed

text \<open>
  C5: whatever the order in which the checks of a run proceed, once
  \<^verbatim>\<open>printErrors\<close> has been called every check that was started is done, none was
  rejected, \<^verbatim>\<open>this.errors\<close> is the list that was printed (nothing is pushed later),
  and that list holds the same diagnostics as the list \<^verbatim>\<open>afterEmit\<close> prints, each as
  often: no report is partial.
\<close>

theorem report_waits_for_all_checks:
  assumes "hook (interleaved env (plugin w) (files env (plugin w) compilation) schedule) =
      Printed es v"
  shows "list_all (\<lambda>t. t = Done)
       (tasks (interleaved env (plugin w) (files env (plugin w) compilation) schedule)) \<and>
     fst (afterEmit env w compilation) = Fulfilled \<and>
     mset es = mset (errors (plugin (snd (afterEmit env w compilation)))) \<and>
     this_errors (interleaved env (plugin w) (files env (plugin w) compilation) schedule) = es \<and>
     v = ecmaVersion (plugin w)"
proof -
  let ?fs = "files env (plugin w) compilation"
  let ?\<rho> = "interleaved env (plugin w) ?fs schedule"
  have inv: "run_inv env (plugin w) ?fs ?\<rho>"
    by (rule run_inv_interleaved)
  with assms have fin: "list_all (\<lambda>t. t = Done) (tasks ?\<rho>)"
    and es: "es = this_errors ?\<rho>" and v: "v = ecmaVersion (plugin w)"
    unfolding run_inv_def by blast+
  from inv fin have "\<forall>filepath\<in>set ?fs. fileSettled env (plugin w) filepath = Fulfilled"
    by (rule all_Fulfilled)
  then have settled: "fst (afterEmit env w compilation) = Fulfilled"
    by (simp add: fst_afterEmit allSettled_Fulfilled)
  from inv have "mset (this_errors ?\<rho>) + all_left env (plugin w) ?fs (tasks ?\<rho>) =
      mset (errors (plugin w)) + mset (concat (map (fileDiags env (plugin w)) ?fs))"
    by (simp add: run_inv_def)
  with fin have "mset (this_errors ?\<rho>) =
      mset (errors (plugin w)) + mset (concat (map (fileDiags env (plugin w)) ?fs))"
    by (simp add: all_left_Done)
  with es have "mset es = mset (errors (plugin (snd (afterEmit env w compilation))))"
    by (simp add: errors_afterEmit runDiags_def)
  with fin settled es v show ?thesis
    by simp
qed

theorem report_waits_for_all_checks_witness:
  "hook (interleaved sample_env (plugin (new_world sample_env sample_options))
      (files sample_env (plugin (new_world sample_env sample_options)) build_html) sample_schedule) =
     Printed [(''/out/a.js'', ''Unexpected token''), (''/out/index.html'', ''Unexpected token'')] 2015 \<and>
   tasks (interleaved sample_env (plugin (new_world sample_env sample_options))
      (files sample_env (plugin (new_world sample_env sample_options)) build_html) sample_schedule) =
     [Done, Done] \<and>
   errors (plugin (snd (afterEmit sample_env (new_world sample_env sample_options) build_html))) =
     [(''/out/index.html'', ''Unexpected token''), (''/out/a.js'', ''Unexpected token'')] \<and>
   fst (afterEmit sample_env (new_world sample_env sample_options) build_html) = Fulfilled"
proof -
  have 1: "hook (interleaved sample_env (plugin (new_world sample_env sample_options))
      (files sample_env (plugin (new_world sample_env sample_options)) build_html) sample_schedule) =
     Printed [(''/out/a.js'', ''Unexpected token''), (''/out/index.html'', ''Unexpected token'')] 2015"
    by code_simp
  have 2: "tasks (interleaved sample_env (plugin (new_world sample_env sample_options))
      (files sample_env (plugin (new_world sample_env sample_options)) build_html) sample_schedule) =
     [Done, Done]"
    by code_simp
  have 3: "errors (plugin (snd (afterEmit sample_env (new_world sample_env sample_options) build_html))) =
     [(''/out/index.html'', ''Unexpected token''), (''/out/a.js'', ''Unexpected token'')]"
    by code_simp
  from 1 2 3 report_waits_for_all_checks [OF 1] show ?thesis
    by blast
qed

text \<open>
  The schedule that takes the files in order does print when no check is rejected, and
  it prints the list of \<^verbatim>\<open>afterEmit\<close>: the two models of a run agree.
\<close>

lemma build_all:
  assumes "i < length (tasks \<rho>)" and "tasks \<rho> ! i = Running Fulfilled ps"
    and "firstRejected ps = Fulfilled"
  shows "fold (act env this fs) (replicate (length ps) (Build i 0)) \<rho> =
     \<rho>\<lparr>this_errors := this_errors \<rho> @ concat (map pushed ps),
       tasks := (tasks \<rho>)[i := Running Fulfilled []]\<rparr>"
  using assms
proof (induction ps arbitrary: \<rho>)
  case Nil
  then have "(tasks \<rho>)[i := Running Fulfilled []] = tasks \<rho>"
    by (metis list_update_id)
  then show ?case by simp
next
  case (Cons p ps)
  from Cons.prems(3) obtain a where p: "p = Inr a" and rest: "firstRejected ps = Fulfilled"
    by (cases p) simp_all
  let ?\<rho>1 = "\<rho>\<lparr>this_errors := this_errors \<rho> @ pushed p,
      tasks := (tasks \<rho>)[i := Running Fulfilled ps]\<rparr>"
  from Cons.prems p have step: "act env this fs (Build i 0) \<rho> = ?\<rho>1"
    by simp
  from Cons.prems rest have "fold (act env this fs) (replicate (length ps) (Build i 0)) ?\<rho>1 =
     ?\<rho>1\<lparr>this_errors := this_errors ?\<rho>1 @ concat (map pushed ps),
        tasks := (tasks ?\<rho>1)[i := Running Fulfilled []]\<rparr>"
    by (intro Cons.IH) simp_all
  with step show ?case by simp
qed

lemma file_actions_run:
  assumes "i < length fs" and "length (tasks \<rho>) = length fs" and "tasks \<rho> ! i = Pending"
    and "fileSettled env this (fs ! i) = Fulfilled"
  shows "fold (act env this fs) (file_actions env this fs i) \<rho> =
     \<rho>\<lparr>this_errors := this_errors \<rho> @ fileDiags env this (fs ! i), tasks := (tasks \<rho>)[i := Done]\<rparr>"
proof -
  let ?ps = "fileBuilds env this (fs ! i)"
  let ?\<rho>1 = "\<rho>\<lparr>tasks := (tasks \<rho>)[i := Running Fulfilled ?ps]\<rparr>"
  let ?\<rho>2 = "?\<rho>1\<lparr>this_errors := this_errors ?\<rho>1 @ concat (map pushed ?ps),
      tasks := (tasks ?\<rho>1)[i := Running Fulfilled []]\<rparr>"
  from assms(4) have read: "fileRead env (fs ! i) = Fulfilled"
    and ok: "firstRejected ?ps = Fulfilled"
    by (simp_all add: fileSettled_fileRead split: settled.splits)
  from assms read have 1: "act env this fs (Settle i) \<rho> = ?\<rho>1"
    by simp
  from assms ok have 2: "fold (act env this fs) (replicate (length ?ps) (Build i 0)) ?\<rho>1 = ?\<rho>2"
    by (intro build_all) simp_all
  from assms have 3: "act env this fs (Finish i) ?\<rho>2 =
      \<rho>\<lparr>this_errors := this_errors \<rho> @ concat (map pushed ?ps), tasks := (tasks \<rho>)[i := Done]\<rparr>"
    by simp
  from 1 2 3 show ?thesis
    by (simp add: file_actions_def fileDiags_def)
qed

lemma replicate_next:
  "k < n \<Longrightarrow> (replicate k a @ replicate (n - k) b)[k := a] =
     replicate (Suc k) a @ replicate (n - Suc k) b"
proof -
  assume "k < n"
  then have "n - k = Suc (n - Suc k)"
    by simp
  then show ?thesis
    by (simp add: list_update_append replicate_append_same)
qed

lemma in_order_prefix:
  fixes env :: "('e, 'd, 'v, 'x, 'r) collaborators" and this :: "('d, 'v, 'x) checkSyntaxPlugin"
  assumes "\<forall>filepath\<in>set fs. fileSettled env this filepath = Fulfilled" and "k \<le> length fs"
  shows "fold (act env this fs) (concat (map (file_actions env this fs) [0..<k])) (dispatch this fs) =
     \<lparr> tasks = replicate k Done @ replicate (length fs - k) Pending,
       this_errors = errors this @ concat (map (fileDiags env this) (take k fs)),
       hook = Awaiting \<rparr>"
  using assms(2)
proof (induction k)
  case 0
  show ?case by (simp add: dispatch_def map_replicate_const)
next
  case (Suc k)
  let ?\<rho> = "\<lparr> tasks = replicate k Done @ replicate (length fs - k) Pending,
       this_errors = errors this @ concat (map (fileDiags env this) (take k fs)),
       hook = Awaiting \<rparr> :: ('d, 'v, 'r) run"
  from Suc have k: "k < length fs" by simp
  with assms(1) have ok: "fileSettled env this (fs ! k) = Fulfilled" by simp
  from k have "fold (act env this fs) (file_actions env this fs k) ?\<rho> =
     ?\<rho>\<lparr>this_errors := this_errors ?\<rho> @ fileDiags env this (fs ! k),
        tasks := (tasks ?\<rho>)[k := Done]\<rparr>"
    using ok by (intro file_actions_run) (simp_all add: nth_append)
  with Suc k show ?case
    by (simp add: replicate_next take_Suc_conv_app_nth)
qed

lemma in_order_prints:
  assumes "\<forall>filepath\<in>set fs. fileSettled env this filepath = Fulfilled"
  shows "interleaved env this fs (in_order env this fs) =
     \<lparr> tasks = replicate (length fs) Done,
       this_errors = errors this @ concat (map (fileDiags env this) fs),
       hook = Printed (errors this @ concat (map (fileDiags env this) fs)) (ecmaVersion this) \<rparr>"
  using in_order_prefix [OF assms, of "length fs"]
  by (simp add: interleaved_def in_order_def list_all_length)

lemma in_order_afterEmit:
  assumes "fst (afterEmit env w compilation) = Fulfilled"
  shows "hook (interleaved env (plugin w) (files env (plugin w) compilation)
       (in_order env (plugin w) (files env (plugin w) compilation))) =
     Printed (errors (plugin (snd (afterEmit env w compilation)))) (ecmaVersion (plugin w))"
proof -
  from assms have "\<forall>filepath\<in>set (files env (plugin w) compilation).
      fileSettled env (plugin w) filepath = Fulfilled"
    by (simp add: fst_afterEmit allSettled_Fulfilled)
  then show ?thesis
    by (simp add: in_order_prints errors_afterEmit runDiags_def)
qed

subsection \<open>What tryParse catches and what it does not\<close>














end
